theory Spec2Isabelle
  imports Complex_Main
begin

section \<open>Data model of \<^verbatim>\<open>momepy/dimension.py\<close>\<close>

text \<open>
  The functions of \<^verbatim>\<open>dimension.py\<close> take a GeoDataFrame \<^verbatim>\<open>objects\<close>, add one column
  to it in place and fill it row by row. The embedding keeps what the code observes:
  \<^item> a cell of the frame is a float (a number, an infinity or NaN), a geometry, or
    \<^verbatim>\<open>None\<close>;
  \<^item> a row is a dictionary from column names to cells, a frame is the list of its
    rows with their index labels, in order;
  \<^item> a geometry is the record of what the geometry library answers for it;
  \<^item> every exception the code can raise is a value of \<open>error\<close>, and every function
    returns the frame as it was left (mutation is in place, so an exception does not
    undo it), the lines it printed, and what it returned or raised.
  A number is a real. The sum and the quotient of \<^verbatim>\<open>effective_mesh\<close> are rounded to
  binary64 as the code computes them, since what that metric writes depends on the
  rounding. The product, the difference and the floor quotient of two numbers are the
  exact values, and so is what the geometry library answers.
\<close>

type_synonym point = "real \<times> real"

text \<open>A circle as \<^verbatim>\<open>make_circle\<close> returns it: the triple \<^verbatim>\<open>(x, y, r)\<close>; \<^verbatim>\<open>circ[2]\<close> is the radius.\<close>

type_synonym circle = "real \<times> real \<times> real"

datatype gtype = Point | LineString | LinearRing | Polygon
  | MultiPoint | MultiLineString | MultiPolygon | GeometryCollection

text \<open>
  What the code reads from a geometry: \<^verbatim>\<open>geom.type\<close>, \<^verbatim>\<open>geom.area\<close>, \<^verbatim>\<open>geom.length\<close>,
  \<^verbatim>\<open>Polygon(geom.exterior).area\<close>, \<^verbatim>\<open>geom.convex_hull.exterior.coords\<close> and
  \<^verbatim>\<open>geom.boundary.coords\<close>. The last three are \<open>None\<close> where the attribute chain does
  not exist for the geometry (a point has no exterior, the hull of collinear points is
  a line string), where Python raises.
\<close>

record geometry =
  geom_type :: gtype
  geom_area :: real
  geom_length :: real
  exterior_area :: "real option"
  hull_exterior_coords :: "point list option"
  boundary_coords :: "point list option"

text \<open>\<open>Infinity True\<close> is the float \<^verbatim>\<open>inf\<close>, \<open>Infinity False\<close> is \<^verbatim>\<open>-inf\<close>.\<close>

datatype cell = Num real | Infinity bool | NaN | Geom geometry | PyNone

datatype error = KeyError | IndexError | AttributeError | TypeError | NotImplementedError

type_synonym row = "string \<Rightarrow> cell option"

type_synonym frame = "(int \<times> row) list"

text \<open>
  What a call returned: \<^verbatim>\<open>None\<close> (the function ran off its end) or \<^verbatim>\<open>objects\<close>, the frame
  it was given and has updated in place.
\<close>

datatype retval = RetNone | RetObjects

record outcome =
  frame_after :: frame
  printed :: "string list"
  returned :: "error + retval"

section \<open>Python and pandas primitives\<close>

text \<open>\<^verbatim>\<open>row[column]\<close>: a missing column raises KeyError.\<close>

definition getitem :: "row \<Rightarrow> string \<Rightarrow> error + cell" where
  "getitem row column = (case row column of None \<Rightarrow> Inl KeyError | Some v \<Rightarrow> Inr v)"

text \<open>
  \<^verbatim>\<open>objects[column_name] = None\<close> followed by \<^verbatim>\<open>astype('float')\<close>: the column exists on
  every row afterwards and holds NaN.
\<close>

definition new_column :: "frame \<Rightarrow> string \<Rightarrow> frame" where
  "new_column objects column_name = map (\<lambda>(i, r). (i, r(column_name \<mapsto> NaN))) objects"

text \<open>
  \<^verbatim>\<open>objects.loc[index, column_name] = v\<close> assigns by label: every row that carries the
  label is updated.
\<close>

definition loc_set :: "frame \<Rightarrow> int \<Rightarrow> string \<Rightarrow> cell \<Rightarrow> frame" where
  "loc_set objects index column_name v =
     map (\<lambda>(i, r). if i = index then (i, r(column_name \<mapsto> v)) else (i, r)) objects"

text \<open>
  \<^verbatim>\<open>objects.iloc[n]\<close> reads by position: a negative position counts from the end, a
  position outside the frame raises IndexError.
\<close>

definition iloc :: "frame \<Rightarrow> int \<Rightarrow> error + row" where
  "iloc objects n =
     (let len = int (length objects); j = (if n < 0 then n + len else n)
      in if 0 \<le> j \<and> j < len then Inr (snd (objects ! nat j)) else Inl IndexError)"

text \<open>A float cell: the operands that Python's arithmetic accepts.\<close>

fun float_cell :: "cell \<Rightarrow> bool" where
  "float_cell (Num x) = True"
| "float_cell (Infinity s) = True"
| "float_cell NaN = True"
| "float_cell _ = False"

text \<open>
  Arithmetic on cells: NaN propagates, an infinity absorbs a number, and a geometry or
  \<^verbatim>\<open>None\<close> operand raises TypeError. The product of an infinity and 0 is NaN, and so
  is the difference of two infinities of the same sign.
\<close>

fun py_mul :: "cell \<Rightarrow> cell \<Rightarrow> error + cell" where
  "py_mul (Num x) (Num y) = Inr (Num (x * y))"
| "py_mul (Num x) NaN = Inr NaN"
| "py_mul NaN (Num y) = Inr NaN"
| "py_mul NaN NaN = Inr NaN"
| "py_mul (Num x) (Infinity s) = Inr (if x = 0 then NaN else Infinity (s = (0 < x)))"
| "py_mul (Infinity s) (Num y) = Inr (if y = 0 then NaN else Infinity (s = (0 < y)))"
| "py_mul (Infinity s) (Infinity t) = Inr (Infinity (s = t))"
| "py_mul (Infinity s) NaN = Inr NaN"
| "py_mul NaN (Infinity t) = Inr NaN"
| "py_mul _ _ = Inl TypeError"

fun py_sub :: "cell \<Rightarrow> cell \<Rightarrow> error + cell" where
  "py_sub (Num x) (Num y) = Inr (Num (x - y))"
| "py_sub (Num x) NaN = Inr NaN"
| "py_sub NaN (Num y) = Inr NaN"
| "py_sub NaN NaN = Inr NaN"
| "py_sub (Num x) (Infinity s) = Inr (Infinity (\<not> s))"
| "py_sub (Infinity s) (Num y) = Inr (Infinity s)"
| "py_sub (Infinity s) (Infinity t) = Inr (if s = t then NaN else Infinity s)"
| "py_sub (Infinity s) NaN = Inr NaN"
| "py_sub NaN (Infinity t) = Inr NaN"
| "py_sub _ _ = Inl TypeError"

text \<open>
  \<^verbatim>\<open>x // 3\<close> on a float: the floor of the quotient, as a float; the floor quotient of an
  infinity is NaN.
\<close>

fun py_floordiv3 :: "cell \<Rightarrow> error + cell" where
  "py_floordiv3 (Num x) = Inr (Num (of_int \<lfloor>x / 3\<rfloor>))"
| "py_floordiv3 NaN = Inr NaN"
| "py_floordiv3 (Infinity s) = Inr NaN"
| "py_floordiv3 _ = Inl TypeError"

text \<open>
  The sum and the quotient of two floats are the exact sum and quotient rounded to
  binary64: to the nearest number \<open>m * 2 ^ q\<close> with \<open>\<bar>m\<bar> < 2 ^ 53\<close> and \<open>- 1074 \<le> q\<close>, to the
  one with the even \<open>m\<close> when two are equally near, and to an infinity when that number
  is \<open>2 ^ 1024\<close> or more in magnitude. The two zeros of binary64 are the one number 0.

  \<open>bit_length n\<close> is the number of binary digits of \<open>n\<close>, Python's \<^verbatim>\<open>n.bit_length()\<close>.
\<close>

fun bit_length :: "int \<Rightarrow> nat" where
  "bit_length n = (if n \<le> 0 then 0 else Suc (bit_length (n div 2)))"

declare bit_length.simps [simp del]

text \<open>The integer nearest to \<open>x\<close>, the even one of two that are equally near.\<close>

definition round_half_even :: "real \<Rightarrow> int" where
  "round_half_even x =
     (let f = \<lfloor>x\<rfloor>
      in if x - of_int f < 1 / 2 then f
         else if 1 / 2 < x - of_int f then f + 1
         else if even f then f else f + 1)"

text \<open>
  The binary64 value of the real \<open>x\<close>. Its last binary digit is worth \<open>ulp * 2 ^ - 1074\<close>:
  the numbers below \<open>2 ^ - 1021\<close> in magnitude are spaced \<open>2 ^ - 1074\<close> apart, a number of
  \<open>53 + j\<close> binary digits in that unit is rounded to a multiple of \<open>2 ^ j\<close>.
\<close>

definition round_binary64 :: "real \<Rightarrow> cell" where
  "round_binary64 x =
     (let ulp = (2 :: int) ^ (bit_length \<lfloor>\<bar>x\<bar> * 2 ^ 1074\<rfloor> - 53);
          m = round_half_even (x * 2 ^ 1074 / of_int ulp)
      in if 2 ^ 2098 \<le> \<bar>m\<bar> * ulp then Infinity (0 < x)
         else Num (of_int (m * ulp) / 2 ^ 1074))"

text \<open>\<^verbatim>\<open>x + y\<close> on floats: two infinities of opposite sign give NaN.\<close>

fun float_add :: "cell \<Rightarrow> cell \<Rightarrow> cell" where
  "float_add (Num x) (Num y) = round_binary64 (x + y)"
| "float_add (Num x) (Infinity s) = Infinity s"
| "float_add (Infinity s) (Num y) = Infinity s"
| "float_add (Infinity s) (Infinity t) = (if s = t then Infinity s else NaN)"
| "float_add _ _ = NaN"

definition py_add :: "cell \<Rightarrow> cell \<Rightarrow> error + cell" where
  "py_add x y = (if float_cell x \<and> float_cell y then Inr (float_add x y) else Inl TypeError)"

text \<open>
  \<^verbatim>\<open>x / n\<close> for a float \<open>x\<close> and a positive count \<open>n\<close>, the length of a list plus one,
  which the conversion to a float leaves as it is.
\<close>

fun float_div :: "cell \<Rightarrow> nat \<Rightarrow> cell" where
  "float_div (Num x) n = round_binary64 (x / real n)"
| "float_div (Infinity s) n = Infinity s"
| "float_div _ n = NaN"

definition py_truediv :: "cell \<Rightarrow> nat \<Rightarrow> error + cell" where
  "py_truediv x n = (if float_cell x then Inr (float_div x n) else Inl TypeError)"

text \<open>Attribute reads on whatever the geometry column holds.\<close>

fun attr_area :: "cell \<Rightarrow> error + cell" where
  "attr_area (Geom g) = Inr (Num (geom_area g))"
| "attr_area _ = Inl AttributeError"

fun attr_length :: "cell \<Rightarrow> error + cell" where
  "attr_length (Geom g) = Inr (Num (geom_length g))"
| "attr_length _ = Inl AttributeError"

text \<open>\<^verbatim>\<open>Polygon(geom.exterior).area\<close>\<close>

fun attr_exterior_area :: "cell \<Rightarrow> error + cell" where
  "attr_exterior_area (Geom g) =
     (case exterior_area g of None \<Rightarrow> Inl AttributeError | Some a \<Rightarrow> Inr (Num a))"
| "attr_exterior_area _ = Inl AttributeError"

text \<open>\<^verbatim>\<open>geom.convex_hull.exterior.coords\<close>\<close>

fun attr_hull_coords :: "cell \<Rightarrow> error + point list" where
  "attr_hull_coords (Geom g) =
     (case hull_exterior_coords g of None \<Rightarrow> Inl AttributeError | Some pts \<Rightarrow> Inr pts)"
| "attr_hull_coords _ = Inl AttributeError"

text \<open>
  The loop \<^verbatim>\<open>for index, row in objects.iterrows(): objects.loc[index, column_name] = ...\<close>.
  \<^verbatim>\<open>iterrows\<close> hands out the rows as they were when the loop started; the body also
  sees the frame as it is now. The first exception ends the loop and leaves the frame
  as it is at that moment.
\<close>

fun iterrows_loop ::
  "(int \<Rightarrow> row \<Rightarrow> frame \<Rightarrow> error + cell) \<Rightarrow> string \<Rightarrow> (int \<times> row) list \<Rightarrow> frame
     \<Rightarrow> frame \<times> error option" where
  "iterrows_loop body column_name [] objects = (objects, None)"
| "iterrows_loop body column_name ((index, row) # rest) objects =
     (case body index row objects of
        Inl e \<Rightarrow> (objects, Some e)
      | Inr v \<Rightarrow> iterrows_loop body column_name rest (loc_set objects index column_name v))"

section \<open>The metrics\<close>

subsection \<open>area, perimeter\<close>

definition area_row :: "row \<Rightarrow> error + cell" where
  "area_row row = (case getitem row ''geometry'' of Inl e \<Rightarrow> Inl e | Inr g \<Rightarrow> attr_area g)"

definition area :: "frame \<Rightarrow> string \<Rightarrow> outcome" where
  "area objects column_name =
     (let objects1 = new_column objects column_name in
      case iterrows_loop (\<lambda>index row objs. area_row row) column_name objects1 objects1 of
        (objects2, Some e) \<Rightarrow>
          \<lparr>frame_after = objects2, printed = [''Calculating areas...''], returned = Inl e\<rparr>
      | (objects2, None) \<Rightarrow>
          \<lparr>frame_after = objects2,
           printed = [''Calculating areas...'', ''Areas calculated.''],
           returned = Inr RetObjects\<rparr>)"

definition perimeter_row :: "row \<Rightarrow> error + cell" where
  "perimeter_row row =
     (case getitem row ''geometry'' of Inl e \<Rightarrow> Inl e | Inr g \<Rightarrow> attr_length g)"

definition perimeter :: "frame \<Rightarrow> string \<Rightarrow> outcome" where
  "perimeter objects column_name =
     (let objects1 = new_column objects column_name in
      case iterrows_loop (\<lambda>index row objs. perimeter_row row) column_name objects1 objects1 of
        (objects2, Some e) \<Rightarrow>
          \<lparr>frame_after = objects2, printed = [''Calculating perimeters...''], returned = Inl e\<rparr>
      | (objects2, None) \<Rightarrow>
          \<lparr>frame_after = objects2,
           printed = [''Calculating perimeters...'', ''Perimeters calculated.''],
           returned = Inr RetObjects\<rparr>)"

subsection \<open>height\_os, height\_prg\<close>

text \<open>\<^verbatim>\<open>original_column\<close> defaults to \<^verbatim>\<open>'relh2'\<close>.\<close>

definition height_os :: "frame \<Rightarrow> string \<Rightarrow> string \<Rightarrow> outcome" where
  "height_os objects column_name original_column =
     (let objects1 = new_column objects column_name in
      case iterrows_loop (\<lambda>index row objs. getitem row original_column)
             column_name objects1 objects1 of
        (objects2, Some e) \<Rightarrow>
          \<lparr>frame_after = objects2, printed = [''Calculating heights...''], returned = Inl e\<rparr>
      | (objects2, None) \<Rightarrow>
          \<lparr>frame_after = objects2,
           printed = [''Calculating heights...'', ''Heights defined.''],
           returned = Inr RetObjects\<rparr>)"

text \<open>
  The floor height by building type: 3.5 for type 7 (old buildings with high ceiling),
  5 for type 3 (warehouses), 3 otherwise. The type is read before the number of floors.
\<close>

definition height_prg_row :: "string \<Rightarrow> string \<Rightarrow> row \<Rightarrow> error + cell" where
  "height_prg_row floors_column floor_type row =
     (case getitem row floor_type of
        Inl e \<Rightarrow> Inl e
      | Inr t \<Rightarrow>
          (case getitem row floors_column of
             Inl e \<Rightarrow> Inl e
           | Inr floors \<Rightarrow>
               if t = Num 7 then py_mul floors (Num 3.5)
               else if t = Num 3 then py_mul floors (Num 5)
               else py_mul floors (Num 3)))"

text \<open>\<^verbatim>\<open>floors_column\<close> defaults to \<^verbatim>\<open>'od_POCET_P'\<close>, \<^verbatim>\<open>floor_type\<close> to \<^verbatim>\<open>'od_TYP'\<close>.\<close>

definition height_prg :: "frame \<Rightarrow> string \<Rightarrow> string \<Rightarrow> string \<Rightarrow> outcome" where
  "height_prg objects column_name floors_column floor_type =
     (let objects1 = new_column objects column_name in
      case iterrows_loop (\<lambda>index row objs. height_prg_row floors_column floor_type row)
             column_name objects1 objects1 of
        (objects2, Some e) \<Rightarrow>
          \<lparr>frame_after = objects2, printed = [''Calculating heights...''], returned = Inl e\<rparr>
      | (objects2, None) \<Rightarrow>
          \<lparr>frame_after = objects2,
           printed = [''Calculating heights...'', ''Heights defined.''],
           returned = Inr RetObjects\<rparr>)"

subsection \<open>volume, floor\_area, courtyard\_area\<close>

text \<open>
  The message of the \<^verbatim>\<open>except KeyError\<close> branch shared by the three functions;
  \<^verbatim>\<open>print\<close> joins its arguments with one space.
\<close>

definition area_column_error :: "string \<Rightarrow> string" where
  "area_column_error area_column =
     ''ERROR: Building area column named'' @ '' '' @ area_column @ '' '' @
     ''not found. Define area_column or set area_calculated to False.''"

text \<open>\<^verbatim>\<open>row[area_column] * row[height_column]\<close>, the left operand first.\<close>

definition volume_row :: "string \<Rightarrow> string \<Rightarrow> row \<Rightarrow> error + cell" where
  "volume_row area_column height_column row =
     (case getitem row area_column of
        Inl e \<Rightarrow> Inl e
      | Inr a \<Rightarrow>
          (case getitem row height_column of Inl e \<Rightarrow> Inl e | Inr h \<Rightarrow> py_mul a h))"

text \<open>\<^verbatim>\<open>row['geometry'].area * row[height_column]\<close>\<close>

definition volume_geom_row :: "string \<Rightarrow> row \<Rightarrow> error + cell" where
  "volume_geom_row height_column row =
     (case area_row row of
        Inl e \<Rightarrow> Inl e
      | Inr a \<Rightarrow>
          (case getitem row height_column of Inl e \<Rightarrow> Inl e | Inr h \<Rightarrow> py_mul a h))"

text \<open>
  With \<^verbatim>\<open>area_calculated\<close> the loop runs inside \<^verbatim>\<open>try\<close>: a KeyError is caught and
  reported, any other exception propagates, and the function runs off its end
  (\<^verbatim>\<open>return objects\<close> stands in the \<^verbatim>\<open>else\<close> branch only).
\<close>

definition volume :: "frame \<Rightarrow> string \<Rightarrow> string \<Rightarrow> string \<Rightarrow> bool \<Rightarrow> outcome" where
  "volume objects column_name area_column height_column area_calculated =
     (let objects1 = new_column objects column_name in
      if area_calculated then
        (case iterrows_loop (\<lambda>index row objs. volume_row area_column height_column row)
                column_name objects1 objects1 of
           (objects2, None) \<Rightarrow>
             \<lparr>frame_after = objects2,
              printed = [''Calculating volumes...'', ''Volumes calculated.''],
              returned = Inr RetNone\<rparr>
         | (objects2, Some KeyError) \<Rightarrow>
             \<lparr>frame_after = objects2,
              printed = [''Calculating volumes...'', area_column_error area_column],
              returned = Inr RetNone\<rparr>
         | (objects2, Some e) \<Rightarrow>
             \<lparr>frame_after = objects2, printed = [''Calculating volumes...''],
              returned = Inl e\<rparr>)
      else
        (case iterrows_loop (\<lambda>index row objs. volume_geom_row height_column row)
                column_name objects1 objects1 of
           (objects2, Some e) \<Rightarrow>
             \<lparr>frame_after = objects2, printed = [''Calculating volumes...''],
              returned = Inl e\<rparr>
         | (objects2, None) \<Rightarrow>
             \<lparr>frame_after = objects2,
              printed = [''Calculating volumes...'', ''Volumes calculated.''],
              returned = Inr RetObjects\<rparr>))"

text \<open>\<^verbatim>\<open>row[area_column] * (row[height_column] // 3)\<close>: the divisor 3 is written in the code.\<close>

definition floor_area_row :: "string \<Rightarrow> string \<Rightarrow> row \<Rightarrow> error + cell" where
  "floor_area_row area_column height_column row =
     (case getitem row area_column of
        Inl e \<Rightarrow> Inl e
      | Inr a \<Rightarrow>
          (case getitem row height_column of
             Inl e \<Rightarrow> Inl e
           | Inr h \<Rightarrow> (case py_floordiv3 h of Inl e \<Rightarrow> Inl e | Inr floors \<Rightarrow> py_mul a floors)))"

text \<open>\<^verbatim>\<open>row['geometry'].area * (row[height_column] // 3)\<close>\<close>

definition floor_area_geom_row :: "string \<Rightarrow> row \<Rightarrow> error + cell" where
  "floor_area_geom_row height_column row =
     (case area_row row of
        Inl e \<Rightarrow> Inl e
      | Inr a \<Rightarrow>
          (case getitem row height_column of
             Inl e \<Rightarrow> Inl e
           | Inr h \<Rightarrow> (case py_floordiv3 h of Inl e \<Rightarrow> Inl e | Inr floors \<Rightarrow> py_mul a floors)))"

text \<open>Here \<^verbatim>\<open>return objects\<close> follows the \<^verbatim>\<open>if\<close>, so both branches reach it.\<close>

definition floor_area :: "frame \<Rightarrow> string \<Rightarrow> string \<Rightarrow> string \<Rightarrow> bool \<Rightarrow> outcome" where
  "floor_area objects column_name area_column height_column area_calculated =
     (let objects1 = new_column objects column_name in
      if area_calculated then
        (case iterrows_loop (\<lambda>index row objs. floor_area_row area_column height_column row)
                column_name objects1 objects1 of
           (objects2, None) \<Rightarrow>
             \<lparr>frame_after = objects2,
              printed = [''Calculating floor areas...'', ''Floor areas calculated.''],
              returned = Inr RetObjects\<rparr>
         | (objects2, Some KeyError) \<Rightarrow>
             \<lparr>frame_after = objects2,
              printed = [''Calculating floor areas...'', area_column_error area_column],
              returned = Inr RetObjects\<rparr>
         | (objects2, Some e) \<Rightarrow>
             \<lparr>frame_after = objects2, printed = [''Calculating floor areas...''],
              returned = Inl e\<rparr>)
      else
        (case iterrows_loop (\<lambda>index row objs. floor_area_geom_row height_column row)
                column_name objects1 objects1 of
           (objects2, Some e) \<Rightarrow>
             \<lparr>frame_after = objects2, printed = [''Calculating floor areas...''],
              returned = Inl e\<rparr>
         | (objects2, None) \<Rightarrow>
             \<lparr>frame_after = objects2,
              printed = [''Calculating floor areas...'', ''Floor areas calculated.''],
              returned = Inr RetObjects\<rparr>))"

text \<open>
  \<^verbatim>\<open>Polygon(row['geometry'].exterior).area - row[area_column]\<close>: the geometry is read
  before the area column.
\<close>

definition courtyard_area_row :: "string \<Rightarrow> row \<Rightarrow> error + cell" where
  "courtyard_area_row area_column row =
     (case getitem row ''geometry'' of
        Inl e \<Rightarrow> Inl e
      | Inr g \<Rightarrow>
          (case attr_exterior_area g of
             Inl e \<Rightarrow> Inl e
           | Inr ext \<Rightarrow>
               (case getitem row area_column of Inl e \<Rightarrow> Inl e | Inr a \<Rightarrow> py_sub ext a)))"

text \<open>\<^verbatim>\<open>Polygon(row['geometry'].exterior).area - row['geometry'].area\<close>\<close>

definition courtyard_area_geom_row :: "row \<Rightarrow> error + cell" where
  "courtyard_area_geom_row row =
     (case getitem row ''geometry'' of
        Inl e \<Rightarrow> Inl e
      | Inr g \<Rightarrow>
          (case attr_exterior_area g of
             Inl e \<Rightarrow> Inl e
           | Inr ext \<Rightarrow> (case area_row row of Inl e \<Rightarrow> Inl e | Inr a \<Rightarrow> py_sub ext a)))"

definition courtyard_area :: "frame \<Rightarrow> string \<Rightarrow> string \<Rightarrow> bool \<Rightarrow> outcome" where
  "courtyard_area objects column_name area_column area_calculated =
     (let objects1 = new_column objects column_name in
      if area_calculated then
        (case iterrows_loop (\<lambda>index row objs. courtyard_area_row area_column row)
                column_name objects1 objects1 of
           (objects2, None) \<Rightarrow>
             \<lparr>frame_after = objects2,
              printed = [''Calculating courtyard areas...'', ''Core area indices calculated.''],
              returned = Inr RetObjects\<rparr>
         | (objects2, Some KeyError) \<Rightarrow>
             \<lparr>frame_after = objects2,
              printed = [''Calculating courtyard areas...'', area_column_error area_column],
              returned = Inr RetObjects\<rparr>
         | (objects2, Some e) \<Rightarrow>
             \<lparr>frame_after = objects2, printed = [''Calculating courtyard areas...''],
              returned = Inl e\<rparr>)
      else
        (case iterrows_loop (\<lambda>index row objs. courtyard_area_geom_row row)
                column_name objects1 objects1 of
           (objects2, Some e) \<Rightarrow>
             \<lparr>frame_after = objects2, printed = [''Calculating courtyard areas...''],
              returned = Inl e\<rparr>
         | (objects2, None) \<Rightarrow>
             \<lparr>frame_after = objects2,
              printed = [''Calculating courtyard areas...'', ''Core area indices calculated.''],
              returned = Inr RetObjects\<rparr>))"

subsection \<open>longest\_axis\_length\<close>

text \<open>
  \<^verbatim>\<open>make_circle\<close> is imported from \<^verbatim>\<open>momepy/shape.py\<close>; the functions below take it as
  the parameter \<open>make_circle\<close>.
\<close>

definition longest_axis :: "(point list \<Rightarrow> circle) \<Rightarrow> point list \<Rightarrow> real" where
  "longest_axis make_circle points = (let circ = make_circle points in snd (snd circ) * 2)"

text \<open>
  The helper \<^verbatim>\<open>sort_NoneType\<close> is defined inside \<^verbatim>\<open>longest_axis_length\<close>: 0 for \<^verbatim>\<open>None\<close>
  and for a geometry that is not a polygon, the longest axis of the boundary otherwise
  (\<^verbatim>\<open>.coords\<close> of a boundary of several rings raises NotImplementedError). The code
  compares the type name with \<^verbatim>\<open>is not 'Polygon'\<close>, read here as inequality of the
  names. The loop does not call the helper.
\<close>

definition sort_NoneType :: "(point list \<Rightarrow> circle) \<Rightarrow> cell \<Rightarrow> error + real" where
  "sort_NoneType make_circle geom =
     (case geom of
        PyNone \<Rightarrow> Inr 0
      | Geom g \<Rightarrow>
          if geom_type g \<noteq> Polygon then Inr 0
          else (case boundary_coords g of
                  None \<Rightarrow> Inl NotImplementedError
                | Some pts \<Rightarrow> Inr (longest_axis make_circle pts))
      | _ \<Rightarrow> Inl AttributeError)"

text \<open>\<^verbatim>\<open>longest_axis(row['geometry'].convex_hull.exterior.coords)\<close>\<close>

definition longest_axis_row :: "(point list \<Rightarrow> circle) \<Rightarrow> row \<Rightarrow> error + cell" where
  "longest_axis_row make_circle row =
     (case getitem row ''geometry'' of
        Inl e \<Rightarrow> Inl e
      | Inr g \<Rightarrow>
          (case attr_hull_coords g of
             Inl e \<Rightarrow> Inl e
           | Inr pts \<Rightarrow> Inr (Num (longest_axis make_circle pts))))"

definition longest_axis_length :: "(point list \<Rightarrow> circle) \<Rightarrow> frame \<Rightarrow> string \<Rightarrow> outcome" where
  "longest_axis_length make_circle objects column_name =
     (let objects1 = new_column objects column_name in
      case iterrows_loop (\<lambda>index row objs. longest_axis_row make_circle row)
             column_name objects1 objects1 of
        (objects2, Some e) \<Rightarrow>
          \<lparr>frame_after = objects2, printed = [''Calculating the longest axis...''],
           returned = Inl e\<rparr>
      | (objects2, None) \<Rightarrow>
          \<lparr>frame_after = objects2,
           printed = [''Calculating the longest axis...'', ''The longest axis calculated.''],
           returned = Inr RetObjects\<rparr>)"

subsection \<open>effective\_mesh\<close>

text \<open>
  The inner loop \<^verbatim>\<open>for n in neighbours\<close>: each neighbour is read by position from the
  frame as it is now and its area added to the running total.
\<close>

fun sum_neighbours :: "frame \<Rightarrow> string \<Rightarrow> cell \<Rightarrow> int list \<Rightarrow> error + cell" where
  "sum_neighbours objects area_column total_area [] = Inr total_area"
| "sum_neighbours objects area_column total_area (n # ns) =
     (case iloc objects n of
        Inl e \<Rightarrow> Inl e
      | Inr r \<Rightarrow>
          (case getitem r area_column of
             Inl e \<Rightarrow> Inl e
           | Inr n_area \<Rightarrow>
               (case py_add total_area n_area of
                  Inl e \<Rightarrow> Inl e
                | Inr t \<Rightarrow> sum_neighbours objects area_column t ns)))"

text \<open>
  \<^verbatim>\<open>spatial_weights.neighbors\<close> is a dictionary from an index label to the list of its
  neighbours; a label it does not hold raises KeyError.
\<close>

definition effective_mesh_row ::
  "(int \<Rightarrow> int list option) \<Rightarrow> string \<Rightarrow> int \<Rightarrow> row \<Rightarrow> frame \<Rightarrow> error + cell" where
  "effective_mesh_row neighbors area_column index row objects =
     (case neighbors index of
        None \<Rightarrow> Inl KeyError
      | Some neighbours \<Rightarrow>
          (case getitem row area_column of
             Inl e \<Rightarrow> Inl e
           | Inr own \<Rightarrow>
               (case sum_neighbours objects area_column own neighbours of
                  Inl e \<Rightarrow> Inl e
                | Inr total_area \<Rightarrow> py_truediv total_area (length neighbours + 1))))"

text \<open>The function has no \<^verbatim>\<open>return\<close> and prints one line.\<close>

definition effective_mesh ::
  "frame \<Rightarrow> string \<Rightarrow> (int \<Rightarrow> int list option) \<Rightarrow> string \<Rightarrow> outcome" where
  "effective_mesh objects column_name neighbors area_column =
     (let objects1 = new_column objects column_name in
      case iterrows_loop (effective_mesh_row neighbors area_column)
             column_name objects1 objects1 of
        (objects2, Some e) \<Rightarrow>
          \<lparr>frame_after = objects2, printed = [''Calculating effective mesh size...''],
           returned = Inl e\<rparr>
      | (objects2, None) \<Rightarrow>
          \<lparr>frame_after = objects2, printed = [''Calculating effective mesh size...''],
           returned = Inr RetNone\<rparr>)"

section \<open>Vocabulary of the properties\<close>

text \<open>
  Between two states of the frame: the rows and their labels are the same, and every
  column but \<open>c\<close> holds what it held.
\<close>

definition others_kept :: "string \<Rightarrow> frame \<Rightarrow> frame \<Rightarrow> bool" where
  "others_kept c before after \<longleftrightarrow>
     map fst after = map fst before \<and>
     (\<forall>k < length before. \<forall>c'. c' \<noteq> c \<longrightarrow> snd (after ! k) c' = snd (before ! k) c')"

text \<open>Every row has an entry for column \<open>c\<close>.\<close>

definition has_column :: "string \<Rightarrow> frame \<Rightarrow> bool" where
  "has_column c objects \<longleftrightarrow> (\<forall>k < length objects. snd (objects ! k) c \<noteq> None)"

definition writes_only :: "string \<Rightarrow> frame \<Rightarrow> frame \<Rightarrow> bool" where
  "writes_only c before after \<longleftrightarrow> others_kept c before after \<and> has_column c after"



text \<open>The real \<open>x\<close> is a binary64 number: rounding leaves it as it is.\<close>

definition binary64 :: "real \<Rightarrow> bool" where
  "binary64 x \<longleftrightarrow> round_binary64 x = Num x"

text \<open>
  What \<^verbatim>\<open>effective_mesh\<close> computes from the area \<open>own\<close> of an object and the areas
  \<open>others\<close> of its neighbours, in the order of the neighbour list: the running total,
  rounded after every addition, divided by the number of areas.
\<close>

definition mesh_size :: "real \<Rightarrow> real list \<Rightarrow> cell" where
  "mesh_size own others =
     float_div (foldl float_add (Num own) (map Num others)) (length others + 1)"

text \<open>The position that \<^verbatim>\<open>objects.iloc[n]\<close> reads in a frame of \<open>len\<close> rows.\<close>

definition position :: "nat \<Rightarrow> int \<Rightarrow> nat" where
  "position len n = nat (if n < 0 then n + int len else n)"

text \<open>A column that holds a float on every row.\<close>

definition float_column :: "string \<Rightarrow> frame \<Rightarrow> bool" where
  "float_column c objects \<longleftrightarrow> (\<forall>(i, r) \<in> set objects. \<exists>v. r c = Some v \<and> float_cell v)"

text \<open>
  Modelled from the spec: what it means that a circle contains every input point.
  The solver \<^verbatim>\<open>make_circle\<close> lives in \<^verbatim>\<open>momepy/shape.py\<close>, which is not among the
  sources; the specification gives its contract, stated here in exact arithmetic.
\<close>

definition encloses :: "circle \<Rightarrow> point list \<Rightarrow> bool" where
  "encloses c points \<longleftrightarrow>
     (case c of (cx, cy, r) \<Rightarrow>
        0 \<le> r \<and> (\<forall>(x, y) \<in> set points. (x - cx)\<^sup>2 + (y - cy)\<^sup>2 \<le> r\<^sup>2))"

text \<open>
  Modelled from the spec: the contract of the minimal-enclosing-circle solver. The circle
  contains every point and no circle that does has a smaller radius.
\<close>

definition minimal_enclosing :: "circle \<Rightarrow> point list \<Rightarrow> bool" where
  "minimal_enclosing c points \<longleftrightarrow>
     encloses c points \<and> (\<forall>c'. encloses c' points \<longrightarrow> snd (snd c) \<le> snd (snd c'))"

text \<open>
  The points are the four corners of a square of side \<open>s\<close>, in any position, in any
  order and with repetitions (a ring repeats its first point).
\<close>

definition square_corners :: "real \<Rightarrow> point list \<Rightarrow> bool" where
  "square_corners s points \<longleftrightarrow>
     (\<exists>x y a b. a\<^sup>2 + b\<^sup>2 = s\<^sup>2 \<and>
        set points = {(x, y), (x + a, y + b), (x + a - b, y + b + a), (x - b, y + a)})"

section \<open>The minimal-enclosing-circle solver of the specification\<close>

text \<open>
  \<^verbatim>\<open>make_circle\<close> is defined in \<^verbatim>\<open>momepy/shape.py\<close>, which is not among the sources. The
  definitions of this section follow section 4.1 of the specification, in exact
  arithmetic: the tolerance of the point-in-circle test is 0 and the points are
  processed in the order given.
\<close>

text \<open>
  Modelled from the spec: the quantity the test "point inside circle" compares with 0,
  the squared distance of the point from the centre minus the squared radius.
\<close>

definition power_of :: "circle \<Rightarrow> point \<Rightarrow> real" where
  "power_of c p = (case c of (cx, cy, r) \<Rightarrow> (fst p - cx)\<^sup>2 + (snd p - cy)\<^sup>2 - r\<^sup>2)"

text \<open>
  Modelled from the spec: the test "point inside circle"; a point on the boundary is
  inside, and no point is inside as long as there is no current circle.
\<close>

definition inside_circle :: "circle option \<Rightarrow> point \<Rightarrow> bool" where
  "inside_circle c p = (case c of None \<Rightarrow> False | Some c' \<Rightarrow> power_of c' p \<le> 0)"

text \<open>Modelled from the spec: the circle with two points as diameter endpoints.\<close>

definition diameter_circle :: "point \<Rightarrow> point \<Rightarrow> circle" where
  "diameter_circle p q =
     ((fst p + fst q) / 2, (snd p + snd q) / 2,
      sqrt ((fst p - fst q)\<^sup>2 + (snd p - snd q)\<^sup>2) / 2)"

text \<open>
  Modelled from the spec: the circle that three non-collinear points determine; there
  is none when the points are collinear.
\<close>

definition circumscribed_circle :: "point \<Rightarrow> point \<Rightarrow> point \<Rightarrow> circle option" where
  "circumscribed_circle a b c =
     (let ax = fst a; ay = snd a; bx = fst b; by = snd b; cx = fst c; cy = snd c;
          d = 2 * (ax * (by - cy) + bx * (cy - ay) + cx * (ay - by))
      in if d = 0 then None
         else
           let x = ((ax\<^sup>2 + ay\<^sup>2) * (by - cy) + (bx\<^sup>2 + by\<^sup>2) * (cy - ay)
                     + (cx\<^sup>2 + cy\<^sup>2) * (ay - by)) / d;
               y = ((ax\<^sup>2 + ay\<^sup>2) * (cx - bx) + (bx\<^sup>2 + by\<^sup>2) * (ax - cx)
                     + (cx\<^sup>2 + cy\<^sup>2) * (bx - ax)) / d
           in Some (x, y, sqrt ((ax - x)\<^sup>2 + (ay - y)\<^sup>2)))"

text \<open>
  Modelled from the spec: the circle for a set of at most three boundary points. One
  point gives the circle of radius 0 about it, two points the circle with them as
  diameter endpoints, three points their circumscribed circle.
\<close>

fun boundary_circle :: "point list \<Rightarrow> circle option" where
  "boundary_circle [] = None"
| "boundary_circle [p] = Some (fst p, snd p, 0)"
| "boundary_circle [p, q] = Some (diameter_circle p q)"
| "boundary_circle [p, q, s] = circumscribed_circle p q s"
| "boundary_circle _ = None"

text \<open>
  Modelled from the spec: the incremental expansion. The current circle bounds the
  points processed before \<open>p\<close>; when it does not bound \<open>p\<close>, the circle is recomputed over
  those points with \<open>p\<close> mandatorily on the boundary, and so on for a second and a third
  boundary point. The boundary set never grows beyond three points.
\<close>

fun expand :: "point list \<Rightarrow> point list \<Rightarrow> circle option" where
  "expand [] boundary = boundary_circle boundary"
| "expand (p # processed) boundary =
     (if length boundary = 3 then boundary_circle boundary
      else
        (let current = expand processed boundary
         in if inside_circle current p then current
            else expand processed (p # boundary)))"

text \<open>
  Modelled from the spec: \<^verbatim>\<open>enclosingCircle(points)\<close>, with the points processed in the
  order given. The result is \<open>None\<close> for no points at all.
\<close>

definition enclosingCircle :: "point list \<Rightarrow> circle option" where
  "enclosingCircle points = expand (rev points) []"

text \<open>
  The circle bounds the processed points and passes through the boundary points.
\<close>

definition bounds :: "circle \<Rightarrow> point list \<Rightarrow> point list \<Rightarrow> bool" where
  "bounds c processed boundary \<longleftrightarrow>
     0 \<le> snd (snd c) \<and> (\<forall>p \<in> set processed. power_of c p \<le> 0) \<and>
     (\<forall>q \<in> set boundary. power_of c q = 0)"

text \<open>
  Modelled from the spec: every input point lies within the circle, allowing the
  tolerance \<open>\<epsilon>\<close>.
\<close>

definition within_tolerance :: "real \<Rightarrow> circle \<Rightarrow> point list \<Rightarrow> bool" where
  "within_tolerance \<epsilon> c points \<longleftrightarrow>
     (case c of (cx, cy, r) \<Rightarrow>
        \<forall>(x, y) \<in> set points. sqrt ((x - cx)\<^sup>2 + (y - cy)\<^sup>2) \<le> r + \<epsilon>)"

section \<open>Example data\<close>

text \<open>The square with corners \<open>(0, 0)\<close> and \<open>(s, s)\<close>, as the geometry library describes it.\<close>

definition square :: "real \<Rightarrow> geometry" where
  "square s =
     \<lparr>geom_type = Polygon, geom_area = s * s, geom_length = 4 * s,
      exterior_area = Some (s * s),
      hull_exterior_coords = Some [(0, 0), (s, 0), (s, s), (0, s), (0, 0)],
      boundary_coords = Some [(0, 0), (s, 0), (s, s), (0, s), (0, 0)]\<rparr>"

text \<open>A point: it has no exterior ring, and neither has its convex hull.\<close>

definition point_geometry :: geometry where
  "point_geometry =
     \<lparr>geom_type = Point, geom_area = 0, geom_length = 0, exterior_area = None,
      hull_exterior_coords = None, boundary_coords = None\<rparr>"

text \<open>Two buildings with their area and height columns filled in.\<close>

definition buildings :: frame where
  "buildings =
     [(0, [''geometry'' \<mapsto> Geom (square 10), ''area'' \<mapsto> Num 100, ''height'' \<mapsto> Num 9]),
      (1, [''geometry'' \<mapsto> Geom (square 2), ''area'' \<mapsto> Num 4, ''height'' \<mapsto> Num 7])]"

text \<open>The two buildings in a frame whose labels are not the positions.\<close>

definition relabelled :: frame where
  "relabelled =
     [(1, [''geometry'' \<mapsto> Geom (square 10), ''area'' \<mapsto> Num 100]),
      (0, [''geometry'' \<mapsto> Geom (square 2), ''area'' \<mapsto> Num 4])]"

text \<open>Three plots of the same area.\<close>

definition terraces :: frame where
  "terraces =
     [(0, [''geometry'' \<mapsto> Geom (square 5), ''area'' \<mapsto> Num 25]),
      (1, [''geometry'' \<mapsto> Geom (square 5), ''area'' \<mapsto> Num 25]),
      (2, [''geometry'' \<mapsto> Geom (square 5), ''area'' \<mapsto> Num 25])]"

text \<open>
  The value of the literal \<^verbatim>\<open>0.1\<close>, the binary64 number nearest to one tenth, and three
  plots of that area.
\<close>

definition tenth :: real where
  "tenth = 3602879701896397 / 2 ^ 55"

definition tenths :: frame where
  "tenths =
     [(0, [''area'' \<mapsto> Num tenth]), (1, [''area'' \<mapsto> Num tenth]), (2, [''area'' \<mapsto> Num tenth])]"

text \<open>Two plots with a height and no area column.\<close>

definition plots :: frame where
  "plots =
     [(0, [''geometry'' \<mapsto> Geom (square 5), ''height'' \<mapsto> Num 9]),
      (1, [''geometry'' \<mapsto> Geom (square 5), ''height'' \<mapsto> Num 6])]"

text \<open>Collections of one object: one without geometry, a point, and a square of side 2.\<close>

definition null_plot :: frame where
  "null_plot = [(0, [''geometry'' \<mapsto> PyNone, ''height'' \<mapsto> Num 9])]"

definition point_plot :: frame where
  "point_plot = [(0, [''geometry'' \<mapsto> Geom point_geometry])]"

definition square_plot :: frame where
  "square_plot = [(0, [''geometry'' \<mapsto> Geom (square 2)])]"

text \<open>A collection of one object that has a height and no geometry column.\<close>

definition bare_plot :: frame where
  "bare_plot = [(0, [''height'' \<mapsto> Num 9])]"

text \<open>Two squares, of side 2 and of side 10, that carry the same label.\<close>

definition twins :: frame where
  "twins = [(0, [''geometry'' \<mapsto> Geom (square 2)]), (0, [''geometry'' \<mapsto> Geom (square 10)])]"

text \<open>Neighbour relations for the buildings and for the three plots.\<close>

definition pair_neighbours :: "int \<Rightarrow> int list option" where
  "pair_neighbours = [0 \<mapsto> [1], 1 \<mapsto> [0]]"

definition row_neighbours :: "int \<Rightarrow> int list option" where
  "row_neighbours = [0 \<mapsto> [1], 1 \<mapsto> [0, 2], 2 \<mapsto> []]"

text \<open>The first building with a neighbour 5, beyond the end of the collection.\<close>

definition far_neighbours :: "int \<Rightarrow> int list option" where
  "far_neighbours = [0 \<mapsto> [5], 1 \<mapsto> [0]]"

text \<open>Neighbours of the two buildings written as positions from the end.\<close>

definition end_neighbours :: "int \<Rightarrow> int list option" where
  "end_neighbours = [0 \<mapsto> [- 2, - 1], 1 \<mapsto> [- 2]]"

section \<open>Rounding to binary64\<close>

text \<open>
  The number of binary digits: \<open>n\<close> has \<open>k + 1\<close> of them when it lies between \<open>2 ^ k\<close> and
  \<open>2 ^ (k + 1)\<close>.
\<close>

lemma bit_length_bounds: "0 < n \<Longrightarrow> 2 ^ (bit_length n - 1) \<le> n \<and> n < 2 ^ bit_length n"
proof (induction n rule: bit_length.induct)
  case (1 n)
  show ?case
  proof (cases "n div 2 \<le> 0")
    case True
    with 1(2) have "n = 1" by presburger
    then show ?thesis by (simp add: bit_length.simps)
  next
    case False
    then have pos: "0 < n div 2" by simp
    from 1 have n0: "\<not> n \<le> 0" by simp
    from 1(1)[OF n0 pos] have IH: "2 ^ (bit_length (n div 2) - 1) \<le> n div 2"
      "n div 2 < 2 ^ bit_length (n div 2)" by auto
    have bl: "bit_length n = Suc (bit_length (n div 2))"
      using n0 by (subst bit_length.simps) simp
    have "0 < bit_length (n div 2)" using pos by (subst bit_length.simps) simp
    then obtain j where j: "bit_length (n div 2) = Suc j"
      by (cases "bit_length (n div 2)") auto
    from IH j have "2 ^ j \<le> n div 2" "n div 2 < 2 ^ Suc j" by auto
    then have "2 * 2 ^ j \<le> n" "n < 2 * 2 ^ Suc j" by auto
    then show ?thesis using bl j by simp
  qed
qed

lemma bit_length_eqI:
  assumes "2 ^ k \<le> n" "n < 2 ^ Suc k"
  shows "bit_length n = Suc k"
proof -
  have "(0::int) < 2 ^ k" by simp
  then have pos: "0 < n" using assms(1) by linarith
  from bit_length_bounds[OF pos] have b: "2 ^ (bit_length n - 1) \<le> n" "n < 2 ^ bit_length n"
    by auto
  have "(2::int) ^ k < 2 ^ bit_length n" using assms(1) b(2) by (rule le_less_trans)
  then have 1: "k < bit_length n" by (rule power_less_imp_less_exp[rotated]) simp
  have "(2::int) ^ (bit_length n - 1) < 2 ^ Suc k" using b(1) assms(2) by (rule le_less_trans)
  then have 2: "bit_length n - 1 < Suc k" by (rule power_less_imp_less_exp[rotated]) simp
  from 1 2 show ?thesis by simp
qed

lemma bit_length_shift:
  assumes "0 < a"
  shows "bit_length (a * 2 ^ p) = bit_length a + p"
proof -
  from bit_length_bounds[OF assms] have b: "2 ^ (bit_length a - 1) \<le> a" "a < 2 ^ bit_length a"
    by auto
  have pos: "0 < bit_length a" using assms by (subst bit_length.simps) simp
  have "2 ^ (bit_length a - 1 + p) \<le> a * 2 ^ p" using b(1) by (simp add: power_add)
  moreover have "a * 2 ^ p < 2 ^ Suc (bit_length a - 1 + p)"
    using b(2) pos by (simp add: power_add)
  ultimately have "bit_length (a * 2 ^ p) = Suc (bit_length a - 1 + p)"
    by (rule bit_length_eqI)
  then show ?thesis using pos by simp
qed

lemma bit_length_le:
  assumes "a < 2 ^ w"
  shows "bit_length a \<le> w"
proof (cases "0 < a")
  case True
  from bit_length_bounds[OF True] have "(2::int) ^ (bit_length a - 1) < 2 ^ w"
    using assms by linarith
  then have "bit_length a - 1 < w" by (rule power_less_imp_less_exp[rotated]) simp
  then show ?thesis by simp
next
  case False
  then show ?thesis by (subst bit_length.simps) simp
qed

lemma round_half_even_of_int: "round_half_even (of_int z) = z"
  by (simp add: round_half_even_def)

lemma round_half_even_cases:
  "round_half_even y = \<lfloor>y\<rfloor> \<or> round_half_even y = \<lfloor>y\<rfloor> + 1"
  by (simp add: round_half_even_def Let_def)

lemma round_half_even_bound:
  assumes "\<bar>y\<bar> < of_int b"
  shows "\<bar>round_half_even y\<bar> \<le> b"
proof -
  have "- of_int b < y" "y < of_int b" using assms by (simp_all add: abs_less_iff)
  then have "- b \<le> \<lfloor>y\<rfloor>" "\<lfloor>y\<rfloor> < b" by (simp_all add: le_floor_iff floor_less_iff)
  with round_half_even_cases[of y] show ?thesis by auto
qed

text \<open>The definition with its two large exponents under a name, which keeps them unevaluated.\<close>

lemma round_binary64_unfold:
  assumes "P = 1074" "Q = 2098"
  shows "round_binary64 x =
     (let ulp = (2 :: int) ^ (bit_length \<lfloor>\<bar>x\<bar> * 2 ^ P\<rfloor> - 53);
          m = round_half_even (x * 2 ^ P / of_int ulp)
      in if 2 ^ Q \<le> \<bar>m\<bar> * ulp then Infinity (0 < x)
         else Num (of_int (m * ulp) / 2 ^ P))"
  unfolding assms round_binary64_def by (rule refl)

text \<open>
  A number \<open>n / 2 ^ j\<close> with \<open>\<bar>n\<bar> < 2 ^ 53\<close> and \<open>j \<le> 1074\<close> is a binary64 number: rounding
  leaves it as it is. Every integer below \<open>2 ^ 53\<close> in magnitude is one.
\<close>

lemma round_binary64_dyadic:
  assumes "\<bar>n\<bar> < 2 ^ 53" "j \<le> 1074"
  shows "round_binary64 (of_int n / 2 ^ j) = Num (of_int n / 2 ^ j)"
proof -
  define P :: nat where "P = 1074"
  define Q :: nat where "Q = 2098"
  define a where "a = \<bar>n\<bar>"
  define p where "p = P - j"
  define e where "e = bit_length (a * 2 ^ p) - 53"
  have a: "0 \<le> a" "a < 2 ^ 53" using assms(1) by (simp_all add: a_def)
  have pj: "P = p + j" using assms(2) by (simp add: p_def P_def)
  have PQ: "53 + P \<le> Q" by (simp add: P_def Q_def)
  have scaled: "real_of_int n / 2 ^ j * 2 ^ P = of_int (n * 2 ^ p)"
    by (simp add: pj power_add)
  have "\<bar>real_of_int n / 2 ^ j\<bar> * 2 ^ P = \<bar>real_of_int n / 2 ^ j * 2 ^ P\<bar>"
    by (simp add: abs_mult)
  also have "\<dots> = of_int (a * 2 ^ p)" unfolding scaled by (simp add: a_def abs_mult)
  finally have "\<lfloor>\<bar>real_of_int n / 2 ^ j\<bar> * 2 ^ P\<rfloor> = \<lfloor>real_of_int (a * 2 ^ p)\<rfloor>"
    by (rule arg_cong)
  then have fl: "\<lfloor>\<bar>real_of_int n / 2 ^ j\<bar> * 2 ^ P\<rfloor> = a * 2 ^ p"
    by (simp only: floor_of_int)
  have ep: "e \<le> p"
  proof (cases "0 < a")
    case True
    have "bit_length a \<le> 53" by (rule bit_length_le[OF a(2)])
    then show ?thesis unfolding e_def bit_length_shift[OF True] by simp
  next
    case False
    with a have "a = 0" by simp
    then show ?thesis by (simp add: e_def bit_length.simps)
  qed
  then have split: "(2::int) ^ p = 2 ^ (p - e) * 2 ^ e" by (simp add: power_add[symmetric])
  have "real_of_int n / 2 ^ j * 2 ^ P / of_int (2 ^ e)
        = of_int (n * 2 ^ (p - e) * 2 ^ e) / of_int (2 ^ e)"
    unfolding scaled using split by (simp add: mult.assoc)
  also have "\<dots> = of_int (n * 2 ^ (p - e))" by simp
  finally have quot:
    "real_of_int n / 2 ^ j * 2 ^ P / of_int (2 ^ e) = of_int (n * 2 ^ (p - e))" .
  have m: "round_half_even (real_of_int n / 2 ^ j * 2 ^ P / of_int (2 ^ e)) = n * 2 ^ (p - e)"
    unfolding quot by (rule round_half_even_of_int)
  have whole: "n * 2 ^ (p - e) * 2 ^ e = n * 2 ^ p" using split by (simp add: mult.assoc)
  have "a * 2 ^ p < 2 ^ 53 * 2 ^ p" using a(2) by simp
  also have "\<dots> = (2::int) ^ (53 + p)" by (simp add: power_add)
  also have "\<dots> \<le> 2 ^ Q" using PQ pj by (intro power_increasing) simp_all
  finally have "\<not> 2 ^ Q \<le> a * 2 ^ p" by simp
  then have small: "\<not> 2 ^ Q \<le> \<bar>n * 2 ^ (p - e)\<bar> * 2 ^ e"
    using whole by (metis a_def abs_mult abs_numeral abs_power2 power_abs)
  have val: "real_of_int (n * 2 ^ p) / 2 ^ P = of_int n / 2 ^ j"
    by (simp add: pj power_add)
  have val': "real_of_int (n * 2 ^ (p - e) * 2 ^ e) / 2 ^ P = of_int n / 2 ^ j"
    unfolding whole by (rule val)
  show ?thesis
    unfolding round_binary64_unfold[OF P_def Q_def] fl e_def[symmetric] Let_def m
    by (simp only: small if_False val')
qed

lemma round_binary64_numeral:
  "numeral w < (2::int) ^ 53 \<Longrightarrow> round_binary64 (numeral w) = Num (numeral w)"
  using round_binary64_dyadic[of "numeral w" 0] by simp

text \<open>
  A number between \<open>2 ^ 52 / 2 ^ q\<close> and \<open>2 ^ 53 / 2 ^ q\<close> in magnitude is rounded to the
  nearest multiple of \<open>1 / 2 ^ q\<close>.
\<close>

lemma round_binary64_normal:
  assumes lo: "2 ^ 52 \<le> \<bar>x\<bar> * 2 ^ q" and hi: "\<bar>x\<bar> * 2 ^ q < 2 ^ 53" and q: "q \<le> 1074"
  shows "round_binary64 x = Num (of_int (round_half_even (x * 2 ^ q)) / 2 ^ q)"
proof -
  define P :: nat where "P = 1074"
  define Q :: nat where "Q = 2098"
  define p where "p = P - q"
  have pq: "P = p + q" using q by (simp add: p_def P_def)
  have PQ: "53 + P \<le> Q" by (simp add: P_def Q_def)
  have sc: "\<bar>x\<bar> * 2 ^ P = \<bar>x\<bar> * 2 ^ q * 2 ^ p" by (simp add: pq power_add)
  have "of_int (2 ^ (52 + p)) = (2::real) ^ 52 * 2 ^ p" by (simp add: power_add)
  also have "\<dots> \<le> \<bar>x\<bar> * 2 ^ q * 2 ^ p" using lo by (intro mult_right_mono) simp_all
  finally have l: "2 ^ (52 + p) \<le> \<lfloor>\<bar>x\<bar> * 2 ^ P\<rfloor>" unfolding sc by (simp only: le_floor_iff)
  have "\<bar>x\<bar> * 2 ^ q * 2 ^ p < 2 ^ 53 * 2 ^ p"
    using hi by (intro mult_strict_right_mono) simp_all
  also have "\<dots> = of_int (2 ^ Suc (52 + p))" by (simp add: power_add)
  finally have h: "\<lfloor>\<bar>x\<bar> * 2 ^ P\<rfloor> < 2 ^ Suc (52 + p)"
    unfolding sc by (simp only: floor_less_iff)
  have bl: "bit_length \<lfloor>\<bar>x\<bar> * 2 ^ P\<rfloor> - 53 = p"
    unfolding bit_length_eqI[OF l h] by simp
  have quot: "x * 2 ^ P / of_int (2 ^ p) = x * 2 ^ q" by (simp add: pq power_add)
  define m where "m = round_half_even (x * 2 ^ q)"
  have "\<bar>x * 2 ^ q\<bar> < of_int (2 ^ 53)" using hi by (simp add: abs_mult)
  then have mb: "\<bar>m\<bar> \<le> 2 ^ 53" unfolding m_def by (rule round_half_even_bound)
  have "\<bar>m\<bar> * 2 ^ p \<le> 2 ^ 53 * (2::int) ^ p" using mb by (intro mult_right_mono) simp_all
  also have "\<dots> = 2 ^ (53 + p)" by (simp add: power_add)
  also have "\<dots> < 2 ^ Q"
    using PQ pq q by (intro power_strict_increasing) (simp_all add: P_def Q_def)
  finally have small: "\<not> 2 ^ Q \<le> \<bar>m\<bar> * 2 ^ p" by simp
  have val: "real_of_int (m * 2 ^ p) / 2 ^ P = of_int m / 2 ^ q" by (simp add: pq power_add)
  show ?thesis
    unfolding round_binary64_unfold[OF P_def Q_def] bl Let_def quot m_def[symmetric]
    by (simp only: small if_False val)
qed

text \<open>The sum and the quotient of floats are floats.\<close>

lemma float_cell_round_binary64: "float_cell (round_binary64 x)"
  by (simp add: round_binary64_def Let_def)

lemma float_cell_float_add: "float_cell (float_add x y)"
  by (cases x; cases y) (simp_all add: float_cell_round_binary64)

lemma float_cell_float_div: "float_cell (float_div x n)"
  by (cases x) (simp_all add: float_cell_round_binary64)

lemma float_cell_foldl: "float_cell t \<Longrightarrow> float_cell (foldl float_add t xs)"
  by (induction xs arbitrary: t) (simp_all add: float_cell_float_add)

text \<open>
  The literal \<^verbatim>\<open>0.1\<close>, three times: the sum of two is exact, the third addition rounds up,
  and the third of the sum is the binary64 number after \<^const>\<open>tenth\<close>.
\<close>

lemma tenth_literal: "round_binary64 (1 / 10) = Num tenth"
  using round_binary64_normal[where q = 56 and x = "1 / 10"]
  by (simp add: tenth_def round_half_even_def Let_def)

lemma tenth_binary64: "binary64 tenth"
  using round_binary64_dyadic[of 3602879701896397 55] by (simp add: tenth_def binary64_def)

lemma two_tenths: "float_add (Num tenth) (Num tenth) = Num (3602879701896397 / 2 ^ 54)"
  using round_binary64_dyadic[of 3602879701896397 54] by (simp add: tenth_def)

lemma three_tenths:
  "float_add (Num (3602879701896397 / 2 ^ 54)) (Num tenth) = Num (5404319552844596 / 2 ^ 54)"
  using round_binary64_normal[where q = 54 and x = "3602879701896397 / 2 ^ 54 + tenth"]
  by (simp add: tenth_def round_half_even_def Let_def)

lemma third_of_three_tenths:
  "float_div (Num (5404319552844596 / 2 ^ 54)) 3 = Num (7205759403792795 / 2 ^ 56)"
  using round_binary64_normal[where q = 56 and x = "5404319552844596 / 2 ^ 54 / 3"]
  by (simp add: round_half_even_def Let_def)

lemma mesh_size_tenths: "mesh_size tenth [tenth, tenth] = Num (7205759403792795 / 2 ^ 56)"
proof -
  have "mesh_size tenth [tenth, tenth]
        = float_div (float_add (float_add (Num tenth) (Num tenth)) (Num tenth)) 3"
    by (simp add: mesh_size_def numeral_3_eq_3 del: float_add.simps float_div.simps)
  then show ?thesis
    by (simp only: two_tenths three_tenths third_of_three_tenths)
qed

lemma mesh_size_differs: "7205759403792795 / 2 ^ 56 \<noteq> tenth"
  by (simp add: tenth_def)

text \<open>What \<^const>\<open>mesh_size\<close> is when no addition and no division rounds.\<close>

lemma foldl_float_add_exact:
  assumes "\<forall>j \<le> length xs. binary64 (own + sum_list (take j xs))"
  shows "foldl float_add (Num own) (map Num xs) = Num (own + sum_list xs)"
  using assms
proof (induction xs arbitrary: own)
  case Nil
  then show ?case by simp
next
  case (Cons x xs)
  have "1 \<le> length (x # xs)" by simp
  with Cons.prems have "binary64 (own + sum_list (take 1 (x # xs)))" by blast
  then have one: "round_binary64 (own + x) = Num (own + x)" by (simp add: binary64_def)
  have "\<forall>j \<le> length xs. binary64 (own + x + sum_list (take j xs))"
  proof (intro allI impI)
    fix j assume "j \<le> length xs"
    then have "Suc j \<le> length (x # xs)" by simp
    with Cons.prems have "binary64 (own + sum_list (take (Suc j) (x # xs)))" by blast
    then show "binary64 (own + x + sum_list (take j xs))" by (simp add: add.assoc)
  qed
  from Cons.IH[OF this] show ?case using one by (simp add: add.assoc)
qed

lemma mesh_size_exact:
  assumes "\<forall>j \<le> length xs. binary64 (own + sum_list (take j xs))"
    and "binary64 ((own + sum_list xs) / real (length xs + 1))"
  shows "mesh_size own xs = Num ((own + sum_list xs) / real (length xs + 1))"
  using assms(2) unfolding mesh_size_def foldl_float_add_exact[OF assms(1)]
  by (simp add: binary64_def)

lemma mesh_size_alone: "binary64 own \<Longrightarrow> mesh_size own [] = Num own"
  by (simp add: mesh_size_def binary64_def)

lemma mesh_size_equal:
  assumes "\<forall>x \<in> set xs. x = own" "\<forall>j \<le> length xs. binary64 (real (j + 1) * own)"
  shows "mesh_size own xs = Num own"
proof -
  have rep: "replicate (length xs) own = xs"
    using assms(1) by (simp add: replicate_length_same)
  have part: "own + sum_list (take j xs) = real (j + 1) * own" if "j \<le> length xs" for j
  proof -
    have "take j xs = take j (replicate (length xs) own)" by (simp only: rep)
    also have "\<dots> = replicate j own" using that by (simp add: min_def)
    finally show ?thesis by (simp add: sum_list_replicate algebra_simps)
  qed
  have sums: "\<forall>j \<le> length xs. binary64 (own + sum_list (take j xs))"
    using assms(2) part by simp
  have total: "own + sum_list xs = real (length xs + 1) * own"
    using part[of "length xs"] by simp
  have "binary64 (real (0 + 1) * own)" using assms(2) by blast
  then have "binary64 own" by simp
  then have "binary64 ((own + sum_list xs) / real (length xs + 1))"
    unfolding total by simp
  from mesh_size_exact[OF sums this] show ?thesis unfolding total by simp
qed

section \<open>The frame under the loop\<close>

lemma length_new_column [simp]: "length (new_column objects c) = length objects"
  by (simp add: new_column_def)

lemma length_loc_set [simp]: "length (loc_set objects i c v) = length objects"
  by (simp add: loc_set_def)

lemma map_fst_new_column [simp]: "map fst (new_column objects c) = map fst objects"
  by (induction objects) (auto simp: new_column_def)

lemma map_fst_loc_set [simp]: "map fst (loc_set objects i c v) = map fst objects"
  by (induction objects) (auto simp: loc_set_def)

lemma nth_new_column:
  "k < length objects \<Longrightarrow>
   new_column objects c ! k = (fst (objects ! k), (snd (objects ! k))(c \<mapsto> NaN))"
  by (simp add: new_column_def case_prod_unfold)

lemma nth_loc_set:
  "k < length objects \<Longrightarrow>
   loc_set objects i c v ! k =
     (if fst (objects ! k) = i then (i, (snd (objects ! k))(c \<mapsto> v)) else objects ! k)"
  by (simp add: loc_set_def case_prod_unfold)

lemma new_column_Cons:
  "new_column ((i, r) # rest) c = (i, r(c \<mapsto> NaN)) # new_column rest c"
  by (simp add: new_column_def)

lemma others_kept_refl: "others_kept c objects objects"
  by (simp add: others_kept_def)

lemma others_kept_trans:
  "others_kept c a b \<Longrightarrow> others_kept c b d \<Longrightarrow> others_kept c a d"
  unfolding others_kept_def
  by (metis length_map)

lemma others_kept_length: "others_kept c before after \<Longrightarrow> length after = length before"
  unfolding others_kept_def by (metis length_map)

lemma others_kept_nth:
  "others_kept c before after \<Longrightarrow> k < length before \<Longrightarrow> c' \<noteq> c
   \<Longrightarrow> snd (after ! k) c' = snd (before ! k) c'"
  by (simp add: others_kept_def)

lemma others_kept_new_column: "others_kept c objects (new_column objects c)"
  by (simp add: others_kept_def nth_new_column)

lemma others_kept_loc_set: "others_kept c objects (loc_set objects i c v)"
  by (simp add: others_kept_def nth_loc_set)

lemma has_column_new_column: "has_column c (new_column objects c)"
  by (simp add: has_column_def nth_new_column)

lemma has_column_loc_set: "has_column c objects \<Longrightarrow> has_column c (loc_set objects i c v)"
  by (simp add: has_column_def nth_loc_set)

text \<open>
  Whatever the body does and however the loop ends, it touches column \<open>c\<close> only.
\<close>

lemma iterrows_loop_frame:
  "iterrows_loop body c rows objects = (objects', err) \<Longrightarrow>
   others_kept c objects objects' \<and> (has_column c objects \<longrightarrow> has_column c objects')"
proof (induction rows arbitrary: objects)
  case Nil
  then show ?case by (simp add: others_kept_refl)
next
  case (Cons x rows)
  obtain index row where x: "x = (index, row)" by (cases x)
  show ?case
  proof (cases "body index row objects")
    case (Inl e)
    with Cons.prems x show ?thesis by (simp add: others_kept_refl)
  next
    case (Inr v)
    with Cons.prems x
    have "iterrows_loop body c rows (loc_set objects index c v) = (objects', err)" by simp
    from Cons.IH[OF this] show ?thesis
      using others_kept_loc_set others_kept_trans has_column_loc_set by blast
  qed
qed

lemma loop_writes_only:
  "writes_only c objects (fst (iterrows_loop body c rows (new_column objects c)))"
proof -
  obtain objects' err where
    loop: "iterrows_loop body c rows (new_column objects c) = (objects', err)"
    by (cases "iterrows_loop body c rows (new_column objects c)")
  from iterrows_loop_frame[OF loop] have
    "others_kept c (new_column objects c) objects'" "has_column c objects'"
    using has_column_new_column by auto
  with others_kept_new_column[of c objects] loop show ?thesis
    unfolding writes_only_def using others_kept_trans by auto
qed

text \<open>
  When the labels are distinct and the body succeeds on every row, the loop writes
  each row's value into that row and into no other.
\<close>

lemma loc_set_fresh:
  "i \<notin> fst ` set objects \<Longrightarrow> loc_set objects i c v = objects"
  by (induction objects) (auto simp: loc_set_def)

lemma loc_set_append:
  "loc_set (xs @ ys) i c v = loc_set xs i c v @ loc_set ys i c v"
  by (simp add: loc_set_def)

lemma iterrows_loop_ok_aux:
  assumes "distinct (map fst (done @ rest))"
    and "\<And>i r cur. (i, r) \<in> set rest \<Longrightarrow> others_kept c (done @ rest) cur
           \<Longrightarrow> body i r cur = Inr (v i r)"
  shows "iterrows_loop body c rest (map (\<lambda>(i, r). (i, r(c \<mapsto> v i r))) done @ rest)
         = (map (\<lambda>(i, r). (i, r(c \<mapsto> v i r))) (done @ rest), None)"
  using assms
proof (induction rest arbitrary: "done")
  case Nil
  then show ?case by simp
next
  case (Cons x rest)
  obtain i r where x: "x = (i, r)" by (cases x)
  let ?upd = "\<lambda>(i, r). (i, r(c \<mapsto> v i r))"
  let ?cur = "map ?upd done @ x # rest"
  have kept: "others_kept c (done @ x # rest) ?cur"
    by (auto simp: others_kept_def nth_append case_prod_unfold)
  have body: "body i r ?cur = Inr (v i r)"
    using Cons.prems(2)[of i r ?cur] kept x by simp
  have fresh1: "i \<notin> fst ` set (map ?upd done)"
    using Cons.prems(1) x by (auto simp: case_prod_unfold image_iff)
  have fresh2: "i \<notin> fst ` set rest"
    using Cons.prems(1) x by auto
  have step: "loc_set ?cur i c (v i r) = map ?upd (done @ [x]) @ rest"
    using loc_set_fresh[OF fresh1] loc_set_fresh[OF fresh2] x
    by (simp add: loc_set_append) (simp add: loc_set_def)
  have "iterrows_loop body c rest (map ?upd (done @ [x]) @ rest)
        = (map ?upd ((done @ [x]) @ rest), None)"
  proof (rule Cons.IH)
    show "distinct (map fst ((done @ [x]) @ rest))" using Cons.prems(1) by simp
  next
    fix i' r' cur
    assume "(i', r') \<in> set rest" "others_kept c ((done @ [x]) @ rest) cur"
    then show "body i' r' cur = Inr (v i' r')"
      using Cons.prems(2)[of i' r' cur] by simp
  qed
  moreover have "iterrows_loop body c (x # rest) ?cur
        = iterrows_loop body c rest (loc_set ?cur i c (v i r))"
    unfolding x using body[unfolded x] by (simp only: iterrows_loop.simps sum.case)
  ultimately show ?case by (simp only: step append_assoc append_Cons append_Nil)
qed

lemma iterrows_loop_ok:
  assumes "distinct (map fst objects)"
    and "\<And>i r cur. (i, r) \<in> set objects \<Longrightarrow> others_kept c objects cur
           \<Longrightarrow> body i r cur = Inr (v i r)"
  shows "iterrows_loop body c objects objects
         = (map (\<lambda>(i, r). (i, r(c \<mapsto> v i r))) objects, None)"
  using iterrows_loop_ok_aux[of "[]" objects c body v] assms by simp

lemma iterrows_new_column_ok:
  assumes "distinct (map fst objects)"
    and "\<And>i r cur. (i, r) \<in> set objects \<Longrightarrow> others_kept c (new_column objects c) cur
           \<Longrightarrow> body i (r(c \<mapsto> NaN)) cur = Inr (v i (r(c \<mapsto> NaN)))"
  shows "iterrows_loop body c (new_column objects c) (new_column objects c)
         = (map (\<lambda>(i, r). (i, r(c \<mapsto> v i (r(c \<mapsto> NaN))))) objects, None)"
proof -
  have "iterrows_loop body c (new_column objects c) (new_column objects c)
        = (map (\<lambda>(i, r). (i, r(c \<mapsto> v i r))) (new_column objects c), None)"
  proof (rule iterrows_loop_ok)
    show "distinct (map fst (new_column objects c))" using assms(1) by simp
  next
    fix i r' cur
    assume "(i, r') \<in> set (new_column objects c)" and kept: "others_kept c (new_column objects c) cur"
    then obtain r where "(i, r) \<in> set objects" "r' = r(c \<mapsto> NaN)"
      by (auto simp: new_column_def)
    then show "body i r' cur = Inr (v i r')" using assms(2) kept by simp
  qed
  then show ?thesis by (simp add: new_column_def case_prod_unfold)
qed

lemma iterrows_rowwise_ok:
  assumes "distinct (map fst objects)"
    and "\<And>i r. (i, r) \<in> set objects \<Longrightarrow> \<exists>z. f (r(c \<mapsto> NaN)) = Inr z"
  shows "iterrows_loop (\<lambda>index row objs. f row) c (new_column objects c) (new_column objects c)
         = (map (\<lambda>(i, r). (i, r(c \<mapsto> projr (f (r(c \<mapsto> NaN)))))) objects, None)"
proof (rule iterrows_new_column_ok[OF assms(1)])
  fix i r cur
  assume "(i, r) \<in> set objects"
  from assms(2)[OF this] show "f (r(c \<mapsto> NaN)) = Inr (projr (f (r(c \<mapsto> NaN))))" by auto
qed

text \<open>The frame a metric leaves is the frame its loop leaves.\<close>

lemma frame_after_area:
  "frame_after (area objects c) =
     fst (iterrows_loop (\<lambda>index row objs. area_row row) c (new_column objects c)
            (new_column objects c))"
  by (simp add: area_def Let_def split: prod.splits option.splits)

lemma frame_after_perimeter:
  "frame_after (perimeter objects c) =
     fst (iterrows_loop (\<lambda>index row objs. perimeter_row row) c (new_column objects c)
            (new_column objects c))"
  by (simp add: perimeter_def Let_def split: prod.splits option.splits)

lemma frame_after_height_os:
  "frame_after (height_os objects c oc) =
     fst (iterrows_loop (\<lambda>index row objs. getitem row oc) c (new_column objects c)
            (new_column objects c))"
  by (simp add: height_os_def Let_def split: prod.splits option.splits)

lemma frame_after_height_prg:
  "frame_after (height_prg objects c fc ft) =
     fst (iterrows_loop (\<lambda>index row objs. height_prg_row fc ft row) c (new_column objects c)
            (new_column objects c))"
  by (simp add: height_prg_def Let_def split: prod.splits option.splits)

lemma frame_after_volume:
  "frame_after (volume objects c ac hc flag) =
     fst (iterrows_loop
            (if flag then (\<lambda>index row objs. volume_row ac hc row)
             else (\<lambda>index row objs. volume_geom_row hc row))
            c (new_column objects c) (new_column objects c))"
  by (simp add: volume_def Let_def split: prod.splits option.splits error.splits)

lemma frame_after_floor_area:
  "frame_after (floor_area objects c ac hc flag) =
     fst (iterrows_loop
            (if flag then (\<lambda>index row objs. floor_area_row ac hc row)
             else (\<lambda>index row objs. floor_area_geom_row hc row))
            c (new_column objects c) (new_column objects c))"
  by (simp add: floor_area_def Let_def split: prod.splits option.splits error.splits)

lemma frame_after_courtyard_area:
  "frame_after (courtyard_area objects c ac flag) =
     fst (iterrows_loop
            (if flag then (\<lambda>index row objs. courtyard_area_row ac row)
             else (\<lambda>index row objs. courtyard_area_geom_row row))
            c (new_column objects c) (new_column objects c))"
  by (simp add: courtyard_area_def Let_def split: prod.splits option.splits error.splits)

lemma frame_after_longest_axis_length:
  "frame_after (longest_axis_length mc objects c) =
     fst (iterrows_loop (\<lambda>index row objs. longest_axis_row mc row) c (new_column objects c)
            (new_column objects c))"
  by (simp add: longest_axis_length_def Let_def split: prod.splits option.splits)

lemma frame_after_effective_mesh:
  "frame_after (effective_mesh objects c nb ac) =
     fst (iterrows_loop (effective_mesh_row nb ac) c (new_column objects c)
            (new_column objects c))"
  by (simp add: effective_mesh_def Let_def split: prod.splits option.splits)










lemmas eval_defs = buildings_def square_def new_column_def loc_set_def getitem_def Let_def
  area_row_def perimeter_row_def height_prg_row_def volume_row_def volume_geom_row_def
  floor_area_row_def floor_area_geom_row_def courtyard_area_row_def
  courtyard_area_geom_row_def longest_axis_row_def longest_axis_def effective_mesh_row_def
  iloc_def area_column_error_def

section \<open>The minimal enclosing circle of a square\<close>

text \<open>
  Two minimal enclosing circles of the same points have the same radius. For the corners
  of a square the circle about the centre through the corners is one: it contains the
  corners, and a circle that contains two opposite corners is at least as large.
\<close>

lemma minimal_enclosing_radius:
  "minimal_enclosing c points \<Longrightarrow> minimal_enclosing c' points \<Longrightarrow> snd (snd c) = snd (snd c')"
  unfolding minimal_enclosing_def by (meson order_antisym)

lemma centre_distance:
  fixes x y a b :: real
  shows "(x - (x + (a - b) / 2))\<^sup>2 + (y - (y + (a + b) / 2))\<^sup>2 = (a\<^sup>2 + b\<^sup>2) / 2"
    and "(x + a - (x + (a - b) / 2))\<^sup>2 + (y + b - (y + (a + b) / 2))\<^sup>2 = (a\<^sup>2 + b\<^sup>2) / 2"
    and "(x + a - b - (x + (a - b) / 2))\<^sup>2 + (y + b + a - (y + (a + b) / 2))\<^sup>2
          = (a\<^sup>2 + b\<^sup>2) / 2"
    and "(x - b - (x + (a - b) / 2))\<^sup>2 + (y + a - (y + (a + b) / 2))\<^sup>2 = (a\<^sup>2 + b\<^sup>2) / 2"
  by (simp_all add: power2_eq_square field_simps)

lemma square_centre_encloses:
  assumes "a\<^sup>2 + b\<^sup>2 = 2 * \<rho>\<^sup>2" "0 \<le> \<rho>"
    and "set points = {(x, y), (x + a, y + b), (x + a - b, y + b + a), (x - b, y + a)}"
  shows "encloses (x + (a - b) / 2, y + (a + b) / 2, \<rho>) points"
proof -
  have "(x' - (x + (a - b) / 2))\<^sup>2 + (y' - (y + (a + b) / 2))\<^sup>2 \<le> \<rho>\<^sup>2"
    if "(x', y') \<in> set points" for x' y'
  proof -
    from that assms(3) consider "x' = x \<and> y' = y" | "x' = x + a \<and> y' = y + b"
      | "x' = x + a - b \<and> y' = y + b + a" | "x' = x - b \<and> y' = y + a"
      by auto
    then show ?thesis
    proof cases
      case 1
      then show ?thesis using centre_distance(1)[of x a b y] assms(1) by simp
    next
      case 2
      then show ?thesis using centre_distance(2)[of x a b y] assms(1) by simp
    next
      case 3
      then show ?thesis using centre_distance(3)[of x a b y] assms(1) by simp
    next
      case 4
      then show ?thesis using centre_distance(4)[of x b a y] assms(1) by simp
    qed
  qed
  then show ?thesis using assms(2) unfolding encloses_def by fastforce
qed

lemma diagonal_bound:
  fixes A B P1 P2 Q1 Q2 R S T :: real
  assumes "A \<le> 2 * P1 + 2 * Q1" "B \<le> 2 * P2 + 2 * Q2" "A + B = 2 * S"
    and "P1 + P2 \<le> R" "Q1 + Q2 \<le> R" "S = 2 * T"
  shows "T \<le> R"
  using assms by linarith

lemma square_enclosing_radius:
  assumes "a\<^sup>2 + b\<^sup>2 = 2 * \<rho>\<^sup>2" "0 \<le> \<rho>"
    and "set points = {(x, y), (x + a, y + b), (x + a - b, y + b + a), (x - b, y + a)}"
    and "encloses (cx, cy, r) points"
  shows "\<rho> \<le> r"
proof -
  have "(x, y) \<in> set points" "(x + a - b, y + b + a) \<in> set points"
    using assms(3) by simp_all
  with assms(4) have r: "0 \<le> r"
    and p: "(x - cx)\<^sup>2 + (y - cy)\<^sup>2 \<le> r\<^sup>2"
    and q: "(x + a - b - cx)\<^sup>2 + (y + b + a - cy)\<^sup>2 \<le> r\<^sup>2"
    unfolding encloses_def by fastforce+
  have "(a - b)\<^sup>2 \<le> 2 * (x - cx)\<^sup>2 + 2 * (x + a - b - cx)\<^sup>2"
    using zero_le_power2[of "(x - cx) + (x + a - b - cx)"]
    by (simp add: power2_eq_square algebra_simps)
  moreover have "(a + b)\<^sup>2 \<le> 2 * (y - cy)\<^sup>2 + 2 * (y + b + a - cy)\<^sup>2"
    using zero_le_power2[of "(y - cy) + (y + b + a - cy)"]
    by (simp add: power2_eq_square algebra_simps)
  moreover have "(a - b)\<^sup>2 + (a + b)\<^sup>2 = 2 * (a\<^sup>2 + b\<^sup>2)"
    by (simp add: power2_eq_square algebra_simps)
  ultimately have "\<rho>\<^sup>2 \<le> r\<^sup>2" using p q assms(1) by (rule diagonal_bound)
  then show ?thesis using r by (rule power2_le_imp_le)
qed

lemma square_minimal_enclosing:
  assumes "a\<^sup>2 + b\<^sup>2 = 2 * \<rho>\<^sup>2" "0 \<le> \<rho>"
    and "set points = {(x, y), (x + a, y + b), (x + a - b, y + b + a), (x - b, y + a)}"
  shows "minimal_enclosing (x + (a - b) / 2, y + (a + b) / 2, \<rho>) points"
  unfolding minimal_enclosing_def
proof (intro conjI allI impI)
  show "encloses (x + (a - b) / 2, y + (a + b) / 2, \<rho>) points"
    by (rule square_centre_encloses[OF assms])
next
  fix c' assume enc: "encloses c' points"
  obtain cx cy r where c: "c' = (cx, cy, r)" by (cases c')
  from square_enclosing_radius[OF assms] enc c have "\<rho> \<le> r" by simp
  with c show "snd (snd (x + (a - b) / 2, y + (a + b) / 2, \<rho>)) \<le> snd (snd c')" by simp
qed

lemma square_minimal_radius:
  assumes "square_corners 2 points" "minimal_enclosing c points"
  shows "snd (snd c) = sqrt 2"
proof -
  from assms(1) obtain x y a b :: real where
    ab: "a\<^sup>2 + b\<^sup>2 = 2\<^sup>2"
    and pts: "set points = {(x, y), (x + a, y + b), (x + a - b, y + b + a), (x - b, y + a)}"
    unfolding square_corners_def by blast
  have ab': "a\<^sup>2 + b\<^sup>2 = 2 * (sqrt 2)\<^sup>2" using ab by simp
  have "minimal_enclosing (x + (a - b) / 2, y + (a + b) / 2, sqrt 2) points"
    by (rule square_minimal_enclosing[OF ab' _ pts]) simp
  from minimal_enclosing_radius[OF assms(2) this] show ?thesis by simp
qed

section \<open>The solver of the specification returns a minimal enclosing circle\<close>

text \<open>
  Between two circles, one that leaves the point \<open>p\<close> outside and one that contains it,
  there is a circle through \<open>p\<close>: its defining quantity is the weighted mean of theirs.
  It bounds what both bound, passes through what both pass through, and is no larger
  than the larger of the two.
\<close>

lemma blend_power:
  fixes x0 y0 r0 x1 y1 r1 t px py :: real
  shows "(px - ((1 - t) * x0 + t * x1))\<^sup>2 + (py - ((1 - t) * y0 + t * y1))\<^sup>2
           - ((1 - t) * r0\<^sup>2 + t * r1\<^sup>2 - t * (1 - t) * ((x0 - x1)\<^sup>2 + (y0 - y1)\<^sup>2))
         = (1 - t) * ((px - x0)\<^sup>2 + (py - y0)\<^sup>2 - r0\<^sup>2)
           + t * ((px - x1)\<^sup>2 + (py - y1)\<^sup>2 - r1\<^sup>2)"
  by (simp add: power2_eq_square algebra_simps)

lemma blend:
  assumes D: "bounds D processed boundary"
    and E: "bounds E (p # processed) boundary"
    and out: "0 < power_of D p"
    and le: "snd (snd D) \<le> snd (snd E)"
  shows "\<exists>E'. bounds E' processed (p # boundary) \<and> snd (snd E') \<le> snd (snd E)"
proof -
  obtain x0 y0 r0 where D_eq: "D = (x0, y0, r0)" by (cases D)
  obtain x1 y1 r1 where E_eq: "E = (x1, y1, r1)" by (cases E)
  define f0 where "f0 = power_of D p"
  define f1 where "f1 = power_of E p"
  have f1: "f1 \<le> 0" using E by (simp add: bounds_def f1_def)
  have f0: "0 < f0" using out by (simp add: f0_def)
  define t where "t = f0 / (f0 - f1)"
  have den: "0 < f0 - f1" using f0 f1 by simp
  have t0: "0 < t" unfolding t_def using f0 den by simp
  have t1: "t \<le> 1" unfolding t_def using f0 f1 den by (simp add: field_simps)
  have zero: "(1 - t) * f0 + t * f1 = 0"
  proof -
    have "(1 - t) * f0 + t * f1 = f0 - t * (f0 - f1)" by (simp add: algebra_simps)
    also have "t * (f0 - f1) = f0" unfolding t_def using den by simp
    finally show ?thesis by simp
  qed
  define cx where "cx = (1 - t) * x0 + t * x1"
  define cy where "cy = (1 - t) * y0 + t * y1"
  define \<rho> where "\<rho> = (1 - t) * r0\<^sup>2 + t * r1\<^sup>2 - t * (1 - t) * ((x0 - x1)\<^sup>2 + (y0 - y1)\<^sup>2)"
  have pw: "(fst q - cx)\<^sup>2 + (snd q - cy)\<^sup>2 - \<rho> = (1 - t) * power_of D q + t * power_of E q"
    for q
    unfolding cx_def cy_def \<rho>_def D_eq E_eq power_of_def by (simp add: blend_power)
  have "(fst p - cx)\<^sup>2 + (snd p - cy)\<^sup>2 - \<rho> = 0"
    using pw[of p] zero by (simp add: f0_def f1_def)
  then have \<rho>_eq: "\<rho> = (fst p - cx)\<^sup>2 + (snd p - cy)\<^sup>2" by simp
  then have \<rho>0: "0 \<le> \<rho>" by simp
  have r0: "0 \<le> r0" and r1: "0 \<le> r1" using D E by (simp_all add: bounds_def D_eq E_eq)
  have r01: "r0\<^sup>2 \<le> r1\<^sup>2" using le r0 by (simp add: D_eq E_eq power_mono)
  have "\<rho> \<le> (1 - t) * r0\<^sup>2 + t * r1\<^sup>2"
    unfolding \<rho>_def using t0 t1 by simp
  also have "\<dots> \<le> (1 - t) * r1\<^sup>2 + t * r1\<^sup>2"
    using r01 t1 by (simp add: mult_left_mono)
  also have "\<dots> = r1\<^sup>2" by (simp add: algebra_simps)
  finally have \<rho>r: "\<rho> \<le> r1\<^sup>2" .
  let ?E' = "(cx, cy, sqrt \<rho>)"
  have sq: "(sqrt \<rho>)\<^sup>2 = \<rho>" using \<rho>0 by simp
  have pw': "power_of ?E' q = (1 - t) * power_of D q + t * power_of E q" for q
    using pw[of q] by (simp add: power_of_def sq)
  have "bounds ?E' processed (p # boundary)"
    unfolding bounds_def
  proof (intro conjI ballI)
    show "0 \<le> snd (snd ?E')" using \<rho>0 by simp
  next
    fix q assume "q \<in> set processed"
    then have "power_of D q \<le> 0" "power_of E q \<le> 0" using D E by (simp_all add: bounds_def)
    then have "(1 - t) * power_of D q \<le> 0" "t * power_of E q \<le> 0"
      using t0 t1 by (simp_all add: mult_nonneg_nonpos)
    then show "power_of ?E' q \<le> 0" unfolding pw' by linarith
  next
    fix q assume "q \<in> set (p # boundary)"
    then consider "q = p" | "q \<in> set boundary" by auto
    then show "power_of ?E' q = 0"
    proof cases
      case 1
      then show ?thesis unfolding pw' using zero by (simp add: f0_def f1_def)
    next
      case 2
      then have "power_of D q = 0" "power_of E q = 0" using D E by (simp_all add: bounds_def)
      then show ?thesis unfolding pw' by simp
    qed
  qed
  moreover have "sqrt \<rho> \<le> r1"
    using \<rho>r r1 by (metis real_sqrt_le_iff real_sqrt_abs abs_of_nonneg)
  ultimately show ?thesis unfolding E_eq by (intro exI[of _ ?E']) simp
qed

text \<open>
  Three different points of a circle are not collinear, and they determine the circle.
\<close>

lemma chord_equation:
  fixes ax ay bx "by" ex ey r2 :: real
  assumes "(ax - ex)\<^sup>2 + (ay - ey)\<^sup>2 = r2" "(bx - ex)\<^sup>2 + (by - ey)\<^sup>2 = r2"
  shows "(bx\<^sup>2 + by\<^sup>2) - (ax\<^sup>2 + ay\<^sup>2) = 2 * ((bx - ax) * ex + (by - ay) * ey)"
  using assms by (simp add: power2_eq_square algebra_simps)

lemma collinear_on_circle:
  fixes ux uy wx wy t r2 :: real
  assumes "ux\<^sup>2 + uy\<^sup>2 = r2" "(ux + wx)\<^sup>2 + (uy + wy)\<^sup>2 = r2"
    and "(ux + t * wx)\<^sup>2 + (uy + t * wy)\<^sup>2 = r2"
  shows "t * (t - 1) * (wx\<^sup>2 + wy\<^sup>2) = 0"
proof -
  have h1: "2 * (ux * wx + uy * wy) = - (wx\<^sup>2 + wy\<^sup>2)"
    using assms(1,2) by (simp add: power2_eq_square algebra_simps)
  have h2: "t * (2 * (ux * wx + uy * wy)) + t * t * (wx\<^sup>2 + wy\<^sup>2) = 0"
    using assms(1,3) by (simp add: power2_eq_square algebra_simps)
  have "t * (- (wx\<^sup>2 + wy\<^sup>2)) + t * t * (wx\<^sup>2 + wy\<^sup>2) = 0"
    using h2 unfolding h1 .
  then show ?thesis by (simp add: algebra_simps)
qed

lemma three_on_circle_not_collinear:
  fixes ax ay bx "by" cx cy ex ey r2 :: real
  assumes a: "(ax - ex)\<^sup>2 + (ay - ey)\<^sup>2 = r2"
    and b: "(bx - ex)\<^sup>2 + (by - ey)\<^sup>2 = r2"
    and c: "(cx - ex)\<^sup>2 + (cy - ey)\<^sup>2 = r2"
    and ab: "(ax, ay) \<noteq> (bx, by)" and ac: "(ax, ay) \<noteq> (cx, cy)" and bc: "(bx, by) \<noteq> (cx, cy)"
  shows "ax * (by - cy) + bx * (cy - ay) + cx * (ay - by) \<noteq> 0"
proof
  assume "ax * (by - cy) + bx * (cy - ay) + cx * (ay - by) = 0"
  then have cross: "(bx - ax) * (cy - ay) = (by - ay) * (cx - ax)"
    by (simp add: algebra_simps)
  define wx wy where "wx = bx - ax" and "wy = by - ay"
  have w: "0 < wx\<^sup>2 + wy\<^sup>2"
    using ab unfolding wx_def wy_def by (auto simp: sum_power2_gt_zero_iff)
  have "\<exists>t. cx - ax = t * wx \<and> cy - ay = t * wy"
  proof (cases "wx = 0")
    case False
    define t where "t = (cx - ax) / wx"
    have tw: "cx - ax = t * wx" using False by (simp add: t_def)
    have "wx * (cy - ay) = wy * (cx - ax)" using cross by (simp add: wx_def wy_def)
    also have "\<dots> = wy * (t * wx)" by (simp only: tw)
    also have "\<dots> = wx * (t * wy)" by simp
    finally have "cy - ay = t * wy" using False by simp
    with tw show ?thesis by blast
  next
    case True
    then have wy0: "wy \<noteq> 0" using w by auto
    define t where "t = (cy - ay) / wy"
    have "cy - ay = t * wy" using wy0 by (simp add: t_def)
    moreover have "wx * (cy - ay) = wy * (cx - ax)" using cross by (simp add: wx_def wy_def)
    then have "cx - ax = 0" using True wy0 by simp
    then have "cx - ax = t * wx" using True by simp
    ultimately show ?thesis by blast
  qed
  then obtain t where t: "cx - ax = t * wx" "cy - ay = t * wy" by blast
  have "((ax - ex) + wx)\<^sup>2 + ((ay - ey) + wy)\<^sup>2 = r2"
    using b unfolding wx_def wy_def by (simp add: algebra_simps)
  moreover have "((ax - ex) + t * wx)\<^sup>2 + ((ay - ey) + t * wy)\<^sup>2 = r2"
  proof -
    have "(ax - ex) + t * wx = cx - ex" "(ay - ey) + t * wy = cy - ey"
      using t by simp_all
    then show ?thesis using c by (simp only:)
  qed
  ultimately have "t * (t - 1) * (wx\<^sup>2 + wy\<^sup>2) = 0"
    using collinear_on_circle[OF a] by blast
  then have "t = 0 \<or> t = 1" using w by auto
  then show False
  proof
    assume "t = 0"
    then have "cx = ax" "cy = ay" using t by simp_all
    then show False using ac by simp
  next
    assume "t = 1"
    then have "cx = bx" "cy = by" using t unfolding wx_def wy_def by simp_all
    then show False using bc by simp
  qed
qed

lemma circumcentre:
  fixes ax ay bx "by" cx cy ex ey r2 :: real
  assumes a: "(ax - ex)\<^sup>2 + (ay - ey)\<^sup>2 = r2"
    and b: "(bx - ex)\<^sup>2 + (by - ey)\<^sup>2 = r2"
    and c: "(cx - ex)\<^sup>2 + (cy - ey)\<^sup>2 = r2"
  shows "(ax\<^sup>2 + ay\<^sup>2) * (by - cy) + (bx\<^sup>2 + by\<^sup>2) * (cy - ay) + (cx\<^sup>2 + cy\<^sup>2) * (ay - by)
           = 2 * (ax * (by - cy) + bx * (cy - ay) + cx * (ay - by)) * ex"
    and "(ax\<^sup>2 + ay\<^sup>2) * (cx - bx) + (bx\<^sup>2 + by\<^sup>2) * (ax - cx) + (cx\<^sup>2 + cy\<^sup>2) * (bx - ax)
           = 2 * (ax * (by - cy) + bx * (cy - ay) + cx * (ay - by)) * ey"
proof -
  define A B C where "A = ax\<^sup>2 + ay\<^sup>2" and "B = bx\<^sup>2 + by\<^sup>2" and "C = cx\<^sup>2 + cy\<^sup>2"
  have BA: "B - A = 2 * ((bx - ax) * ex + (by - ay) * ey)"
    unfolding A_def B_def C_def by (rule chord_equation[OF a b])
  have CA: "C - A = 2 * ((cx - ax) * ex + (cy - ay) * ey)"
    unfolding A_def B_def C_def by (rule chord_equation[OF a c])
  have "A * (by - cy) + B * (cy - ay) + C * (ay - by)
        = (B - A) * (cy - ay) - (C - A) * (by - ay)"
    by (simp add: algebra_simps)
  also have "\<dots> = 2 * (ax * (by - cy) + bx * (cy - ay) + cx * (ay - by)) * ex"
    unfolding BA CA by (simp add: algebra_simps)
  finally show "(ax\<^sup>2 + ay\<^sup>2) * (by - cy) + (bx\<^sup>2 + by\<^sup>2) * (cy - ay) + (cx\<^sup>2 + cy\<^sup>2) * (ay - by)
           = 2 * (ax * (by - cy) + bx * (cy - ay) + cx * (ay - by)) * ex"
    unfolding A_def B_def C_def .
  have "A * (cx - bx) + B * (ax - cx) + C * (bx - ax)
        = (C - A) * (bx - ax) - (B - A) * (cx - ax)"
    by (simp add: algebra_simps)
  also have "\<dots> = 2 * (ax * (by - cy) + bx * (cy - ay) + cx * (ay - by)) * ey"
    unfolding BA CA by (simp add: algebra_simps)
  finally show "(ax\<^sup>2 + ay\<^sup>2) * (cx - bx) + (bx\<^sup>2 + by\<^sup>2) * (ax - cx) + (cx\<^sup>2 + cy\<^sup>2) * (bx - ax)
           = 2 * (ax * (by - cy) + bx * (cy - ay) + cx * (ay - by)) * ey"
    unfolding A_def B_def C_def .
qed

lemma circumscribed_circle_unique:
  assumes "distinct [a, b, c]" "bounds E processed [a, b, c]"
  shows "circumscribed_circle a b c = Some E"
proof -
  obtain ax ay where a_eq: "a = (ax, ay)" by (cases a)
  obtain bx "by" where b_eq: "b = (bx, by)" by (cases b)
  obtain cx cy where c_eq: "c = (cx, cy)" by (cases c)
  obtain ex ey r where E_eq: "E = (ex, ey, r)" by (cases E)
  from assms(2) have r: "0 \<le> r"
    and a: "(ax - ex)\<^sup>2 + (ay - ey)\<^sup>2 = r\<^sup>2"
    and b: "(bx - ex)\<^sup>2 + (by - ey)\<^sup>2 = r\<^sup>2"
    and c: "(cx - ex)\<^sup>2 + (cy - ey)\<^sup>2 = r\<^sup>2"
    by (simp_all add: bounds_def power_of_def a_eq b_eq c_eq E_eq)
  define d where "d = 2 * (ax * (by - cy) + bx * (cy - ay) + cx * (ay - by))"
  have "ax * (by - cy) + bx * (cy - ay) + cx * (ay - by) \<noteq> 0"
    using assms(1) by (intro three_on_circle_not_collinear[OF a b c]) (auto simp: a_eq b_eq c_eq)
  then have d: "d \<noteq> 0" by (simp add: d_def)
  have x: "((ax\<^sup>2 + ay\<^sup>2) * (by - cy) + (bx\<^sup>2 + by\<^sup>2) * (cy - ay)
            + (cx\<^sup>2 + cy\<^sup>2) * (ay - by)) / d = ex"
    using circumcentre(1)[OF a b c] d by (simp add: d_def)
  have y: "((ax\<^sup>2 + ay\<^sup>2) * (cx - bx) + (bx\<^sup>2 + by\<^sup>2) * (ax - cx)
            + (cx\<^sup>2 + cy\<^sup>2) * (bx - ax)) / d = ey"
    using circumcentre(2)[OF a b c] d by (simp add: d_def)
  have rad: "sqrt ((ax - ex)\<^sup>2 + (ay - ey)\<^sup>2) = r" using a r by simp
  show ?thesis
    unfolding circumscribed_circle_def a_eq b_eq c_eq E_eq Let_def fst_conv snd_conv
    using d x y rad by (simp add: d_def)
qed

text \<open>The circle on a diameter is the smallest circle through its two endpoints.\<close>

lemma diameter_circle_bounds: "bounds (diameter_circle a b) [] [a, b]"
proof -
  obtain ax ay where a_eq: "a = (ax, ay)" by (cases a)
  obtain bx "by" where b_eq: "b = (bx, by)" by (cases b)
  have sq: "(sqrt ((ax - bx)\<^sup>2 + (ay - by)\<^sup>2) / 2)\<^sup>2 = ((ax - bx)\<^sup>2 + (ay - by)\<^sup>2) / 4"
    by (simp add: power_divide)
  have "(ax - (ax + bx) / 2)\<^sup>2 + (ay - (ay + by) / 2)\<^sup>2 = ((ax - bx)\<^sup>2 + (ay - by)\<^sup>2) / 4"
    "(bx - (ax + bx) / 2)\<^sup>2 + (by - (ay + by) / 2)\<^sup>2 = ((ax - bx)\<^sup>2 + (ay - by)\<^sup>2) / 4"
    by (simp_all add: power2_eq_square field_simps)
  then show ?thesis
    unfolding bounds_def diameter_circle_def power_of_def a_eq b_eq
    by (simp add: sq)
qed

lemma diameter_circle_minimal:
  assumes "bounds E processed [a, b]"
  shows "snd (snd (diameter_circle a b)) \<le> snd (snd E)"
proof -
  obtain ax ay where a_eq: "a = (ax, ay)" by (cases a)
  obtain bx "by" where b_eq: "b = (bx, by)" by (cases b)
  obtain ex ey r where E_eq: "E = (ex, ey, r)" by (cases E)
  from assms have r: "0 \<le> r"
    and a: "(ax - ex)\<^sup>2 + (ay - ey)\<^sup>2 = r\<^sup>2"
    and b: "(bx - ex)\<^sup>2 + (by - ey)\<^sup>2 = r\<^sup>2"
    by (simp_all add: bounds_def power_of_def a_eq b_eq E_eq)
  have "(ax - bx)\<^sup>2 \<le> 2 * (ax - ex)\<^sup>2 + 2 * (bx - ex)\<^sup>2"
    using zero_le_power2[of "(ax - ex) + (bx - ex)"]
    by (simp add: power2_eq_square algebra_simps)
  moreover have "(ay - by)\<^sup>2 \<le> 2 * (ay - ey)\<^sup>2 + 2 * (by - ey)\<^sup>2"
    using zero_le_power2[of "(ay - ey) + (by - ey)"]
    by (simp add: power2_eq_square algebra_simps)
  ultimately have "(ax - bx)\<^sup>2 + (ay - by)\<^sup>2 \<le> 4 * r\<^sup>2" using a b by linarith
  also have "\<dots> = (2 * r)\<^sup>2" by (simp add: power2_eq_square)
  finally have "sqrt ((ax - bx)\<^sup>2 + (ay - by)\<^sup>2) \<le> sqrt ((2 * r)\<^sup>2)"
    by (rule real_sqrt_le_mono)
  also have "\<dots> = \<bar>2 * r\<bar>" by (rule real_sqrt_abs)
  also have "\<dots> = 2 * r" using r by simp
  finally show ?thesis by (simp add: diameter_circle_def a_eq b_eq E_eq)
qed

text \<open>
  The expansion returns, among the circles that bound the processed points and pass
  through the boundary points, one of least radius, whenever there is such a circle at
  all.
\<close>

lemma length_three: "length xs = 3 \<Longrightarrow> \<exists>a b c. xs = [a, b, c]"
  by (auto simp: length_Suc_conv numeral_3_eq_3)

lemma bounds_tail: "bounds E (p # processed) boundary \<Longrightarrow> bounds E processed boundary"
  by (simp add: bounds_def)

lemma boundary_circle_correct:
  assumes "distinct boundary" "length boundary \<le> 3" "boundary \<noteq> []"
    and "bounds E [] boundary"
  shows "\<exists>D. boundary_circle boundary = Some D \<and> bounds D [] boundary \<and>
           (\<forall>E'. bounds E' [] boundary \<longrightarrow> snd (snd D) \<le> snd (snd E'))"
proof -
  from assms(2,3) consider a where "boundary = [a]" | a b where "boundary = [a, b]"
    | a b c where "boundary = [a, b, c]"
    by (cases boundary rule: boundary_circle.cases) auto
  then show ?thesis
  proof cases
    case 1
    have "boundary_circle boundary = Some (fst a, snd a, 0)" using 1 by simp
    moreover have "bounds (fst a, snd a, 0) [] [a]" by (simp add: bounds_def power_of_def)
    moreover have "snd (snd (fst a, snd a, 0 :: real)) \<le> snd (snd E')"
      if "bounds E' [] [a]" for E'
      using that by (simp add: bounds_def)
    ultimately show ?thesis using 1 by blast
  next
    case 2
    have "snd (snd (diameter_circle a b)) \<le> snd (snd E')" if "bounds E' [] [a, b]" for E'
      by (rule diameter_circle_minimal[OF that])
    moreover have "boundary_circle boundary = Some (diameter_circle a b)" using 2 by simp
    ultimately show ?thesis using diameter_circle_bounds[of a b] 2 by blast
  next
    case 3
    have "circumscribed_circle a b c = Some E"
      using circumscribed_circle_unique assms(1,4) 3 by blast
    moreover have "snd (snd E) \<le> snd (snd E')" if "bounds E' [] [a, b, c]" for E'
    proof -
      have "circumscribed_circle a b c = Some E'"
        using circumscribed_circle_unique assms(1) 3 that by blast
      with \<open>circumscribed_circle a b c = Some E\<close> show ?thesis by simp
    qed
    moreover have "boundary_circle boundary = circumscribed_circle a b c" using 3 by simp
    ultimately show ?thesis using 3 assms(4) by metis
  qed
qed

lemma full_boundary_correct:
  assumes "distinct boundary" "length boundary = 3" "bounds E processed boundary"
  shows "boundary_circle boundary = Some E \<and>
         (\<forall>E'. bounds E' processed boundary \<longrightarrow> snd (snd E) \<le> snd (snd E'))"
proof -
  from length_three[OF assms(2)] obtain a b c where abc: "boundary = [a, b, c]" by blast
  have "circumscribed_circle a b c = Some E"
    using circumscribed_circle_unique assms(1,3) abc by blast
  moreover have "snd (snd E) \<le> snd (snd E')" if "bounds E' processed [a, b, c]" for E'
  proof -
    have "circumscribed_circle a b c = Some E'"
      using circumscribed_circle_unique assms(1) abc that by blast
    with \<open>circumscribed_circle a b c = Some E\<close> show ?thesis by simp
  qed
  moreover have "boundary_circle boundary = circumscribed_circle a b c" using abc by simp
  ultimately show ?thesis using abc by metis
qed

lemma expand_correct:
  assumes "distinct boundary" "length boundary \<le> 3" "bounds E processed boundary"
    and "processed \<noteq> [] \<or> boundary \<noteq> []"
  shows "\<exists>D. expand processed boundary = Some D \<and> bounds D processed boundary \<and>
           (\<forall>E'. bounds E' processed boundary \<longrightarrow> snd (snd D) \<le> snd (snd E'))"
  using assms
proof (induction processed arbitrary: boundary E)
  case Nil
  then show ?case using boundary_circle_correct[of boundary E] by simp
next
  case (Cons p rest)
  show ?case
  proof (cases "length boundary = 3")
    case True
    have "expand (p # rest) boundary = boundary_circle boundary" using True by simp
    with full_boundary_correct[OF Cons.prems(1) True Cons.prems(3)] Cons.prems(3)
    show ?thesis by metis
  next
    case False
    with Cons.prems(2) have short: "length (p # boundary) \<le> 3" by simp
    have E_rest: "bounds E rest boundary" by (rule bounds_tail[OF Cons.prems(3)])
    have unfold: "expand (p # rest) boundary =
        (if inside_circle (expand rest boundary) p then expand rest boundary
         else expand rest (p # boundary))"
      using False by (simp add: Let_def)
    show ?thesis
    proof (cases "rest = [] \<and> boundary = []")
      case True
      then have "expand (p # rest) boundary = Some (fst p, snd p, 0)"
        by (simp add: inside_circle_def)
      moreover have "bounds (fst p, snd p, 0) (p # rest) boundary"
        using True by (simp add: bounds_def power_of_def)
      moreover have "snd (snd (fst p, snd p, 0 :: real)) \<le> snd (snd E')"
        if "bounds E' (p # rest) boundary" for E'
        using that by (simp add: bounds_def)
      ultimately show ?thesis by blast
    next
      case nonempty: False
      then have ne: "rest \<noteq> [] \<or> boundary \<noteq> []" by blast
      from Cons.IH[OF Cons.prems(1,2) E_rest ne] obtain D where
        D: "expand rest boundary = Some D" "bounds D rest boundary"
        and D_min: "\<And>E'. bounds E' rest boundary \<Longrightarrow> snd (snd D) \<le> snd (snd E')"
        by blast
      show ?thesis
      proof (cases "power_of D p \<le> 0")
        case True
        then have "expand (p # rest) boundary = Some D"
          using unfold D(1) by (simp add: inside_circle_def)
        moreover have "bounds D (p # rest) boundary"
          using D(2) True by (simp add: bounds_def)
        moreover have "snd (snd D) \<le> snd (snd E')" if "bounds E' (p # rest) boundary" for E'
          using D_min[OF bounds_tail[OF that]] .
        ultimately show ?thesis by blast
      next
        case outside: False
        then have out: "0 < power_of D p" by simp
        have fresh: "p \<notin> set boundary"
          using D(2) out by (auto simp: bounds_def)
        have dist: "distinct (p # boundary)" using fresh Cons.prems(1) by simp
        have lift: "\<exists>E''. bounds E'' rest (p # boundary) \<and> snd (snd E'') \<le> snd (snd E')"
          if "bounds E' (p # rest) boundary" for E'
          using blend[OF D(2) that out D_min[OF bounds_tail[OF that]]] .
        from lift[OF Cons.prems(3)] obtain E0 where E0: "bounds E0 rest (p # boundary)"
          by blast
        from Cons.IH[OF dist short E0] obtain D2 where
          D2: "expand rest (p # boundary) = Some D2" "bounds D2 rest (p # boundary)"
          and D2_min: "\<And>E'. bounds E' rest (p # boundary) \<Longrightarrow> snd (snd D2) \<le> snd (snd E')"
          by blast
        have "expand (p # rest) boundary = Some D2"
          using unfold D(1) D2(1) outside by (simp add: inside_circle_def)
        moreover have "bounds D2 (p # rest) boundary"
          using D2(2) by (simp add: bounds_def)
        moreover have "snd (snd D2) \<le> snd (snd E')" if "bounds E' (p # rest) boundary" for E'
        proof -
          from lift[OF that] obtain E'' where
            "bounds E'' rest (p # boundary)" "snd (snd E'') \<le> snd (snd E')" by blast
          with D2_min[of E''] show ?thesis by linarith
        qed
        ultimately show ?thesis by blast
      qed
    qed
  qed
qed

text \<open>Some circle contains the points, so the expansion from no boundary point succeeds.\<close>

lemma encloses_bounds: "encloses c points \<longleftrightarrow> bounds c points []"
  by (cases c) (auto simp: encloses_def bounds_def power_of_def)

lemma member_le_sum_list:
  fixes xs :: "real list"
  assumes "\<forall>y \<in> set xs. 0 \<le> y" "x \<in> set xs"
  shows "x \<le> sum_list xs"
  using assms
proof (induction xs)
  case Nil
  then show ?case by simp
next
  case (Cons y ys)
  have "0 \<le> sum_list ys" using Cons.prems(1) by (simp add: sum_list_nonneg)
  then show ?case using Cons by auto
qed

lemma some_circle_encloses: "\<exists>E. bounds E points []"
proof -
  let ?norms = "map (\<lambda>p. (fst p)\<^sup>2 + (snd p)\<^sup>2) points"
  let ?E = "(0, 0, sqrt (sum_list ?norms)) :: circle"
  have nonneg: "\<forall>y \<in> set ?norms. 0 \<le> y" by auto
  have total: "0 \<le> sum_list ?norms" by (rule sum_list_nonneg) auto
  have "power_of ?E p \<le> 0" if "p \<in> set points" for p
  proof -
    have "(fst p)\<^sup>2 + (snd p)\<^sup>2 \<in> set ?norms" using that by auto
    from member_le_sum_list[OF nonneg this] show ?thesis
      using total by (simp add: power_of_def)
  qed
  then have "bounds ?E points []" using total by (simp add: bounds_def)
  then show ?thesis by blast
qed

lemma enclosingCircle_correct:
  assumes "points \<noteq> []"
  shows "\<exists>c. enclosingCircle points = Some c \<and> minimal_enclosing c points"
proof -
  obtain E where "bounds E points []" using some_circle_encloses by blast
  then have E: "bounds E (rev points) []" by (simp add: bounds_def)
  have "\<exists>D. expand (rev points) [] = Some D \<and> bounds D (rev points) [] \<and>
          (\<forall>E'. bounds E' (rev points) [] \<longrightarrow> snd (snd D) \<le> snd (snd E'))"
    by (rule expand_correct[OF _ _ E]) (use assms in simp_all)
  then obtain D where D: "expand (rev points) [] = Some D" "bounds D (rev points) []"
    and D_min: "\<And>E'. bounds E' (rev points) [] \<Longrightarrow> snd (snd D) \<le> snd (snd E')"
    by blast
  have rev: "bounds c (rev points) [] \<longleftrightarrow> encloses c points" for c
    by (simp add: encloses_bounds bounds_def)
  have "minimal_enclosing D points"
    unfolding minimal_enclosing_def using D(2) D_min rev by blast
  with D(1) show ?thesis by (simp add: enclosingCircle_def)
qed

lemma encloses_within_tolerance:
  assumes "encloses c points" "0 \<le> \<epsilon>"
  shows "within_tolerance \<epsilon> c points"
proof -
  obtain cx cy r where c: "c = (cx, cy, r)" by (cases c)
  have "sqrt ((x - cx)\<^sup>2 + (y - cy)\<^sup>2) \<le> r + \<epsilon>" if "(x, y) \<in> set points" for x y
  proof -
    from assms(1) that c have r: "0 \<le> r" and le: "(x - cx)\<^sup>2 + (y - cy)\<^sup>2 \<le> r\<^sup>2"
      by (auto simp: encloses_def)
    from le have "sqrt ((x - cx)\<^sup>2 + (y - cy)\<^sup>2) \<le> sqrt (r\<^sup>2)" by (rule real_sqrt_le_mono)
    also have "\<dots> = \<bar>r\<bar>" by (rule real_sqrt_abs)
    finally show ?thesis using r assms(2) by simp
  qed
  then show ?thesis by (auto simp: within_tolerance_def c)
qed

text \<open>
  C1, for the solver as the specification describes it. For every non-empty sequence of
  points the solver returns a circle; the circle contains every point and no circle
  that contains every point has a smaller radius. Hence, for every tolerance
  \<open>\<epsilon> \<ge> 0\<close>, every point lies within the circle up to \<open>\<epsilon>\<close>, and no circle whose radius is
  smaller by more than \<open>\<epsilon>\<close> contains all the points.
\<close>

theorem enclosingCircle_minimal:
  assumes "points \<noteq> []"
  shows "\<exists>c. enclosingCircle points = Some c \<and>
           encloses c points \<and>
           (\<forall>c'. encloses c' points \<longrightarrow> snd (snd c) \<le> snd (snd c')) \<and>
           (\<forall>\<epsilon>\<ge>0. within_tolerance \<epsilon> c points \<and>
                  (\<forall>c'. snd (snd c') < snd (snd c) - \<epsilon> \<longrightarrow> \<not> encloses c' points))"
proof -
  from enclosingCircle_correct[OF assms] obtain c where
    c: "enclosingCircle points = Some c" "minimal_enclosing c points" by blast
  then have enc: "encloses c points"
    and least: "\<And>c'. encloses c' points \<Longrightarrow> snd (snd c) \<le> snd (snd c')"
    unfolding minimal_enclosing_def by blast+
  have "within_tolerance \<epsilon> c points \<and>
        (\<forall>c'. snd (snd c') < snd (snd c) - \<epsilon> \<longrightarrow> \<not> encloses c' points)"
    if "0 \<le> \<epsilon>" for \<epsilon>
  proof (intro conjI allI impI notI)
    show "within_tolerance \<epsilon> c points" by (rule encloses_within_tolerance[OF enc that])
  next
    fix c' assume "snd (snd c') < snd (snd c) - \<epsilon>" "encloses c' points"
    with least[of c'] that show False by simp
  qed
  with c(1) enc least show ?thesis by blast
qed

text \<open>
  C1 at the examples of the specification: one point, two points, and the right triangle
  with legs 4 and 3, whose circle has the hypotenuse as diameter; a circle about the
  same centre of radius 2 does not contain the triangle.
\<close>

theorem enclosingCircle_minimal_witness:
  "enclosingCircle [(3, 4)] = Some (3, 4, 0) \<and>
   enclosingCircle [(0, 0), (4, 0)] = Some (2, 0, 2) \<and>
   enclosingCircle [(0, 0), (4, 0), (0, 3)] = Some (2, 3 / 2, 5 / 2) \<and>
   encloses (2, 3 / 2, 5 / 2) [(0, 0), (4, 0), (0, 3)] \<and>
   \<not> encloses (2, 3 / 2, 2) [(0, 0), (4, 0), (0, 3)]"
proof -
  let ?tri = "[(0, 0), (4, 0), (0, 3)] :: point list"
  have s: "sqrt 25 = 5" using real_sqrt_abs[of 5] by simp
  have one: "enclosingCircle [(3, 4)] = Some (3, 4, 0)"
    by (simp add: enclosingCircle_def inside_circle_def)
  have two: "enclosingCircle [(0, 0), (4, 0)] = Some (2, 0, 2)"
    by (simp add: enclosingCircle_def inside_circle_def power_of_def diameter_circle_def)
  have three: "enclosingCircle ?tri = Some (2, 3 / 2, 5 / 2)"
    by (simp add: enclosingCircle_def inside_circle_def power_of_def diameter_circle_def
        circumscribed_circle_def Let_def power2_eq_square s)
  have "?tri \<noteq> []" by simp
  from enclosingCircle_minimal[OF this] three
  have enc: "encloses (2, 3 / 2, 5 / 2) ?tri"
    and least: "\<forall>c'. encloses c' ?tri \<longrightarrow> snd (snd (2 :: real, 3 / 2 :: real, 5 / 2 :: real)) \<le> snd (snd c')"
    by auto
  from least have "\<not> encloses (2, 3 / 2, 2) ?tri" by fastforce
  with one two three enc show ?thesis by simp
qed

section \<open>Longest axis\<close>

lemma longest_axis_body:
  "c \<noteq> ''geometry'' \<Longrightarrow> r ''geometry'' = Some (Geom g) \<Longrightarrow> hull_exterior_coords g = Some points
   \<Longrightarrow> longest_axis_row mc (r(c \<mapsto> NaN)) = Inr (Num (snd (snd (mc points)) * 2))"
  by (simp add: longest_axis_row_def getitem_def longest_axis_def)

text \<open>
  C2, as the code has it. On a collection with distinct labels whose objects all have a
  geometry with a convex-hull exterior ring (as every polygon of positive area has),
  with an output column other than \<^verbatim>\<open>'geometry'\<close>, which the column initialisation
  would overwrite, and with \<^verbatim>\<open>make_circle\<close> meeting its contract on those rings,
  \<^const>\<open>longest_axis_length\<close> writes for every object twice the radius of the minimal
  enclosing circle of the vertices of its hull ring, and returns the collection. For a
  square of side 2 the value is the diagonal \<open>2 * sqrt 2\<close>. The solver of the
  specification, \<^const>\<open>enclosingCircle\<close>, meets the contract on every ring.
\<close>

theorem longest_axis_length_value:
  assumes "distinct (map fst objects)"
    and "column_name \<noteq> ''geometry''"
    and "\<forall>(i, r) \<in> set objects. \<exists>g points.
           r ''geometry'' = Some (Geom g) \<and> hull_exterior_coords g = Some points \<and>
           minimal_enclosing (make_circle points) points"
    and "k < length objects"
    and "snd (objects ! k) ''geometry'' = Some (Geom g)"
    and "hull_exterior_coords g = Some points"
  shows "returned (longest_axis_length make_circle objects column_name) = Inr RetObjects \<and>
         (\<forall>c. minimal_enclosing c points \<longrightarrow>
            snd (frame_after (longest_axis_length make_circle objects column_name) ! k)
              column_name = Some (Num (2 * snd (snd c)))) \<and>
         (square_corners 2 points \<longrightarrow>
            snd (frame_after (longest_axis_length make_circle objects column_name) ! k)
              column_name = Some (Num (2 * sqrt 2)))"
proof -
  let ?f = "longest_axis_row make_circle"
  have ok: "\<exists>z. ?f (r(column_name \<mapsto> NaN)) = Inr z" if "(i, r) \<in> set objects" for i r
  proof -
    from assms(3) that obtain g' pts where
      "r ''geometry'' = Some (Geom g')" "hull_exterior_coords g' = Some pts" by fast
    from longest_axis_body[where r = r, OF assms(2) this] show ?thesis by blast
  qed
  have loop: "iterrows_loop (\<lambda>index row objs. ?f row) column_name
                (new_column objects column_name) (new_column objects column_name)
              = (map (\<lambda>(i, r). (i, r(column_name \<mapsto> projr (?f (r(column_name \<mapsto> NaN))))))
                   objects, None)"
    using iterrows_rowwise_ok[of objects ?f column_name, OF assms(1)] ok by blast
  have run: "longest_axis_length make_circle objects column_name =
        \<lparr>frame_after = map (\<lambda>(i, r). (i, r(column_name \<mapsto>
                         projr (?f (r(column_name \<mapsto> NaN)))))) objects,
         printed = [''Calculating the longest axis...'', ''The longest axis calculated.''],
         returned = Inr RetObjects\<rparr>"
    using loop by (simp add: longest_axis_length_def)
  have val: "snd (frame_after (longest_axis_length make_circle objects column_name) ! k)
               column_name = Some (Num (snd (snd (make_circle points)) * 2))"
    unfolding run using assms(4) longest_axis_body[where r = "snd (objects ! k)" and mc = make_circle, OF assms(2,5,6)]
    by (simp add: case_prod_unfold)
  have "(objects ! k) \<in> set objects" using assms(4) by simp
  with assms(3,5,6) have mc: "minimal_enclosing (make_circle points) points"
    by (fastforce simp: case_prod_unfold)
  have any: "snd (snd (make_circle points)) = snd (snd c)" if "minimal_enclosing c points" for c
    by (rule minimal_enclosing_radius[OF mc that])
  have sq: "snd (snd (make_circle points)) = sqrt 2" if "square_corners 2 points"
    by (rule square_minimal_radius[OF that mc])
  show ?thesis using run val any sq by (simp add: mult.commute)
qed

text \<open>
  C2 at the square with corners \<open>(0, 0)\<close> and \<open>(2, 2)\<close>, with the solver of the
  specification as \<^verbatim>\<open>make_circle\<close>.
\<close>

theorem longest_axis_length_value_witness:
  "returned (longest_axis_length (\<lambda>points. the (enclosingCircle points)) square_plot ''axis'')
     = Inr RetObjects \<and>
   snd (frame_after (longest_axis_length (\<lambda>points. the (enclosingCircle points))
          square_plot ''axis'') ! 0) ''axis'' = Some (Num (2 * sqrt 2))"
proof -
  let ?ring = "[(0, 0), (2, 0), (2, 2), (0, 2), (0, 0)] :: point list"
  let ?solver = "\<lambda>points. the (enclosingCircle points)"
  have pts: "set ?ring = {(0, 0), (0 + 2, 0 + 0), (0 + 2 - 0, 0 + 0 + 2), (0 - 0, 0 + 2)}"
    by auto
  have corners: "square_corners 2 ?ring"
    unfolding square_corners_def
    by (intro exI[of _ 0] exI[of _ 2] conjI, rule_tac [2] pts) simp
  from enclosingCircle_correct[of ?ring] obtain c where
    "enclosingCircle ?ring = Some c" "minimal_enclosing c ?ring" by auto
  then have mec: "minimal_enclosing (?solver ?ring) ?ring" by simp
  have "returned (longest_axis_length ?solver square_plot ''axis'') = Inr RetObjects \<and>
        (\<forall>c. minimal_enclosing c ?ring \<longrightarrow>
           snd (frame_after (longest_axis_length ?solver square_plot ''axis'') ! 0) ''axis''
             = Some (Num (2 * snd (snd c)))) \<and>
        (square_corners 2 ?ring \<longrightarrow>
           snd (frame_after (longest_axis_length ?solver square_plot ''axis'') ! 0) ''axis''
             = Some (Num (2 * sqrt 2)))"
    by (rule longest_axis_length_value[where g = "square 2"])
      (simp_all add: square_plot_def square_def mec)
  with corners show ?thesis by blast
qed

text \<open>
  C2 as stated fails where two objects carry the same label: \<^verbatim>\<open>objects.loc[index, ...]\<close>
  assigns to every row with that label, so the value of the later object overwrites
  that of the earlier one. In \<^const>\<open>twins\<close>, with the solver of the specification, the
  square of side 2 ends with the diagonal of the square of side 10.
\<close>

theorem longest_axis_length_duplicate_label_counterexample:
  "snd (twins ! 0) ''geometry'' = Some (Geom (square 2)) \<and>
   hull_exterior_coords (square 2) = Some [(0, 0), (2, 0), (2, 2), (0, 2), (0, 0)] \<and>
   square_corners 2 [(0, 0), (2, 0), (2, 2), (0, 2), (0, 0)] \<and>
   returned (longest_axis_length (\<lambda>points. the (enclosingCircle points)) twins ''axis'')
     = Inr RetObjects \<and>
   snd (frame_after (longest_axis_length (\<lambda>points. the (enclosingCircle points))
          twins ''axis'') ! 0) ''axis'' = Some (Num (10 * sqrt 2)) \<and>
   10 * sqrt 2 \<noteq> 2 * sqrt 2"
proof -
  let ?small = "[(0, 0), (2, 0), (2, 2), (0, 2), (0, 0)] :: point list"
  let ?large = "[(0, 0), (10, 0), (10, 10), (0, 10), (0, 0)] :: point list"
  have pts: "set ?small = {(0, 0), (0 + 2, 0 + 0), (0 + 2 - 0, 0 + 0 + 2), (0 - 0, 0 + 2)}"
    by auto
  have corners: "square_corners 2 ?small"
    unfolding square_corners_def
    by (intro exI[of _ 0] exI[of _ 2] conjI, rule_tac [2] pts) simp
  have large: "set ?large = {(0, 0), (0 + 10, 0 + 0), (0 + 10 - 0, 0 + 0 + 10), (0 - 0, 0 + 10)}"
    by auto
  have centred: "minimal_enclosing (0 + (10 - 0) / 2, 0 + (10 + 0) / 2, 5 * sqrt 2) ?large"
    by (rule square_minimal_enclosing[OF _ _ large]) (simp_all add: power_mult_distrib)
  from enclosingCircle_correct[of ?large] obtain c where
    c: "enclosingCircle ?large = Some c" "minimal_enclosing c ?large" by auto
  have "snd (snd c) = snd (snd (0 + (10 - 0) / 2 :: real, 0 + (10 + 0) / 2 :: real, 5 * sqrt 2))"
    by (rule minimal_enclosing_radius[OF c(2) centred])
  then have "snd (snd c) = 5 * sqrt 2" by (simp only: snd_conv)
  with c(1) have radius: "snd (snd (the (enclosingCircle ?large))) = 5 * sqrt 2" by simp
  have run: "returned (longest_axis_length (\<lambda>points. the (enclosingCircle points)) twins ''axis'')
               = Inr RetObjects \<and>
             snd (frame_after (longest_axis_length (\<lambda>points. the (enclosingCircle points))
                    twins ''axis'') ! 0) ''axis''
               = Some (Num (snd (snd (the (enclosingCircle ?large))) * 2))"
    by (simp add: longest_axis_length_def twins_def square_def new_column_def loc_set_def
        longest_axis_row_def getitem_def longest_axis_def)
  have data: "snd (twins ! 0) ''geometry'' = Some (Geom (square 2)) \<and>
              hull_exterior_coords (square 2) = Some ?small"
    by (simp add: twins_def square_def)
  from run radius data corners show ?thesis by simp
qed

text \<open>
  C3 fails on the code. For an object without geometry, and for a point, the loop
  evaluates \<^verbatim>\<open>row['geometry'].convex_hull.exterior.coords\<close> and raises AttributeError;
  the output of the object stays NaN. The helper \<^const>\<open>sort_NoneType\<close>, which answers
  0 for both, is defined and never called.
\<close>

theorem longest_axis_length_null_geometry:
  "returned (longest_axis_length make_circle null_plot ''axis'') = Inl AttributeError \<and>
   snd (frame_after (longest_axis_length make_circle null_plot ''axis'') ! 0) ''axis''
     = Some NaN \<and>
   sort_NoneType make_circle PyNone = Inr 0 \<and>
   returned (longest_axis_length make_circle point_plot ''axis'') = Inl AttributeError \<and>
   sort_NoneType make_circle (Geom point_geometry) = Inr 0"
  by (simp add: longest_axis_length_def null_plot_def point_plot_def point_geometry_def
      new_column_def longest_axis_row_def getitem_def sort_NoneType_def)

section \<open>Frame effect of a metric call\<close>

text \<open>
  C8. A metric call writes the column the caller named on every object and nothing
  else: the rows and their labels are the same after the call, every other column
  holds the values it held (none is removed), and the named column exists on every
  row. This holds for all nine metrics and also when the call ends in an exception.
\<close>

theorem metric_writes_only_its_column:
  "writes_only column_name objects (frame_after (area objects column_name)) \<and>
   writes_only column_name objects (frame_after (perimeter objects column_name)) \<and>
   writes_only column_name objects (frame_after (height_os objects column_name original_column)) \<and>
   writes_only column_name objects
     (frame_after (height_prg objects column_name floors_column floor_type)) \<and>
   writes_only column_name objects
     (frame_after (volume objects column_name area_column height_column area_calculated)) \<and>
   writes_only column_name objects
     (frame_after (floor_area objects column_name area_column height_column area_calculated)) \<and>
   writes_only column_name objects
     (frame_after (courtyard_area objects column_name area_column area_calculated)) \<and>
   writes_only column_name objects
     (frame_after (longest_axis_length make_circle objects column_name)) \<and>
   writes_only column_name objects
     (frame_after (effective_mesh objects column_name neighbors area_column))"
  unfolding frame_after_area frame_after_perimeter frame_after_height_os
    frame_after_height_prg frame_after_volume frame_after_floor_area
    frame_after_courtyard_area frame_after_longest_axis_length frame_after_effective_mesh
  by (intro conjI loop_writes_only)

text \<open>
  C8 at the two example buildings: after \<^const>\<open>volume\<close> the area of the first building
  is still 100 and its volume column exists.
\<close>

theorem metric_writes_only_its_column_witness:
  "snd (frame_after (volume buildings ''volume'' ''area'' ''height'' True) ! 0) ''area''
     = Some (Num 100) \<and>
   snd (frame_after (volume buildings ''volume'' ''area'' ''height'' True) ! 0) ''volume''
     \<noteq> None"
proof -
  have "writes_only ''volume'' buildings
          (frame_after (volume buildings ''volume'' ''area'' ''height'' True))"
    using metric_writes_only_its_column
      [where column_name = "''volume''" and objects = buildings and area_column = "''area''"
         and height_column = "''height''" and area_calculated = True]
    by blast
  then have kept: "\<forall>k < length buildings. \<forall>c'. c' \<noteq> ''volume'' \<longrightarrow>
      snd (frame_after (volume buildings ''volume'' ''area'' ''height'' True) ! k) c'
        = snd (buildings ! k) c'"
    and col: "\<forall>k < length (frame_after (volume buildings ''volume'' ''area'' ''height'' True)).
      snd (frame_after (volume buildings ''volume'' ''area'' ''height'' True) ! k) ''volume''
        \<noteq> None"
    by (simp_all add: writes_only_def others_kept_def has_column_def)
  have len: "length (frame_after (volume buildings ''volume'' ''area'' ''height'' True)) = 2"
    by (simp add: volume_def eval_defs)
  from kept have "snd (frame_after (volume buildings ''volume'' ''area'' ''height'' True) ! 0)
      ''area'' = snd (buildings ! 0) ''area''"
    by (simp add: buildings_def)
  moreover from col len
  have "snd (frame_after (volume buildings ''volume'' ''area'' ''height'' True) ! 0) ''volume''
      \<noteq> None"
    by simp
  ultimately show ?thesis by (simp add: buildings_def)
qed

section \<open>What the metrics return\<close>



section \<open>Floor area\<close>





section \<open>A missing area column\<close>

lemma volume_row_missing:
  "r ac = None \<Longrightarrow> ac \<noteq> c \<Longrightarrow> volume_row ac hc (r(c \<mapsto> NaN)) = Inl KeyError"
  by (simp add: volume_row_def getitem_def)

lemma floor_area_row_missing:
  "r ac = None \<Longrightarrow> ac \<noteq> c \<Longrightarrow> floor_area_row ac hc (r(c \<mapsto> NaN)) = Inl KeyError"
  by (simp add: floor_area_row_def getitem_def)

lemma courtyard_area_row_missing:
  "r ac = None \<Longrightarrow> ac \<noteq> c \<Longrightarrow> c \<noteq> ''geometry'' \<Longrightarrow> r ''geometry'' = Some (Geom g)
   \<Longrightarrow> exterior_area g = Some a
   \<Longrightarrow> courtyard_area_row ac (r(c \<mapsto> NaN)) = Inl KeyError"
  by (simp add: courtyard_area_row_def getitem_def)

lemma courtyard_area_row_no_geometry:
  "c \<noteq> ''geometry'' \<Longrightarrow> r ''geometry'' = None
   \<Longrightarrow> courtyard_area_row ac (r(c \<mapsto> NaN)) = Inl KeyError"
  by (simp add: courtyard_area_row_def getitem_def)

lemma courtyard_area_row_no_ring:
  assumes "c \<noteq> ''geometry''" "r ''geometry'' = Some v"
    and "\<not> (\<exists>g a. v = Geom g \<and> exterior_area g = Some a)"
  shows "courtyard_area_row ac (r(c \<mapsto> NaN)) = Inl AttributeError"
proof (cases v)
  case (Geom g)
  with assms(3) have "exterior_area g = None" by (cases "exterior_area g") auto
  with Geom assms(1,2) show ?thesis by (simp add: courtyard_area_row_def getitem_def)
qed (use assms(1,2) in \<open>simp_all add: courtyard_area_row_def getitem_def\<close>)

lemma volume_missing_area:
  assumes "\<forall>(i, r) \<in> set objects. r ac = None" "ac \<noteq> c"
  shows "volume objects c ac hc True =
           \<lparr>frame_after = new_column objects c,
            printed = [''Calculating volumes...'',
                       if objects = [] then ''Volumes calculated.'' else area_column_error ac],
            returned = Inr RetNone\<rparr>"
proof (cases objects)
  case Nil
  then show ?thesis by (simp add: volume_def new_column_def)
next
  case (Cons x rest)
  obtain i r where x: "x = (i, r)" by (cases x)
  with assms Cons have "volume_row ac hc (r(c \<mapsto> NaN)) = Inl KeyError"
    by (intro volume_row_missing) auto
  then show ?thesis using Cons x by (simp add: volume_def new_column_Cons)
qed

lemma floor_area_missing_area:
  assumes "\<forall>(i, r) \<in> set objects. r ac = None" "ac \<noteq> c"
  shows "floor_area objects c ac hc True =
           \<lparr>frame_after = new_column objects c,
            printed = [''Calculating floor areas...'',
                       if objects = [] then ''Floor areas calculated.''
                       else area_column_error ac],
            returned = Inr RetObjects\<rparr>"
proof (cases objects)
  case Nil
  then show ?thesis by (simp add: floor_area_def new_column_def)
next
  case (Cons x rest)
  obtain i r where x: "x = (i, r)" by (cases x)
  with assms Cons have "floor_area_row ac hc (r(c \<mapsto> NaN)) = Inl KeyError"
    by (intro floor_area_row_missing) auto
  then show ?thesis using Cons x by (simp add: floor_area_def new_column_Cons)
qed

lemma courtyard_area_missing_area:
  assumes "\<forall>(i, r) \<in> set objects. r ac = None" "ac \<noteq> c"
    and "objects = [] \<or>
         c \<noteq> ''geometry'' \<and>
         (\<exists>g a. snd (hd objects) ''geometry'' = Some (Geom g) \<and> exterior_area g = Some a)"
  shows "courtyard_area objects c ac True =
           \<lparr>frame_after = new_column objects c,
            printed = [''Calculating courtyard areas...'',
                       if objects = [] then ''Core area indices calculated.''
                       else area_column_error ac],
            returned = Inr RetObjects\<rparr>"
proof (cases objects)
  case Nil
  then show ?thesis by (simp add: courtyard_area_def new_column_def)
next
  case (Cons x rest)
  obtain i r where x: "x = (i, r)" by (cases x)
  from assms(3) Cons x obtain g a where
    g: "c \<noteq> ''geometry''" "r ''geometry'' = Some (Geom g)" "exterior_area g = Some a"
    by auto
  from assms(1,2) Cons x have "r ac = None" "ac \<noteq> c" by auto
  from courtyard_area_row_missing[OF this g]
  show ?thesis using Cons x by (simp add: courtyard_area_def new_column_Cons)
qed

text \<open>
  Where the first object has no \<^verbatim>\<open>'geometry'\<close> entry, the KeyError of that read is caught
  like the one of the area column; where it has one that is no geometry with an exterior
  ring, the AttributeError of the read ends the call.
\<close>

lemma courtyard_area_no_geometry:
  assumes "objects \<noteq> []" "c \<noteq> ''geometry''" "snd (hd objects) ''geometry'' = None"
  shows "courtyard_area objects c ac True =
           \<lparr>frame_after = new_column objects c,
            printed = [''Calculating courtyard areas...'', area_column_error ac],
            returned = Inr RetObjects\<rparr>"
proof (cases objects)
  case Nil
  with assms(1) show ?thesis by simp
next
  case (Cons x rest)
  obtain i r where x: "x = (i, r)" by (cases x)
  from assms(3) Cons x have "r ''geometry'' = None" by simp
  from courtyard_area_row_no_geometry[where r = r, OF assms(2) this]
  show ?thesis using Cons x by (simp add: courtyard_area_def new_column_Cons)
qed

lemma courtyard_area_no_ring:
  assumes "objects \<noteq> []" "c \<noteq> ''geometry''" "snd (hd objects) ''geometry'' \<noteq> None"
    and "\<not> (\<exists>g a. snd (hd objects) ''geometry'' = Some (Geom g) \<and> exterior_area g = Some a)"
  shows "courtyard_area objects c ac True =
           \<lparr>frame_after = new_column objects c,
            printed = [''Calculating courtyard areas...''],
            returned = Inl AttributeError\<rparr>"
proof (cases objects)
  case Nil
  with assms(1) show ?thesis by simp
next
  case (Cons x rest)
  obtain i r where x: "x = (i, r)" by (cases x)
  from assms(3) Cons x obtain v where v: "r ''geometry'' = Some v" by auto
  with assms(4) Cons x have "\<not> (\<exists>g a. v = Geom g \<and> exterior_area g = Some a)" by simp
  from courtyard_area_row_no_ring[where r = r, OF assms(2) v this]
  show ?thesis using Cons x by (simp add: courtyard_area_def new_column_Cons)
qed

text \<open>
  C4, as the code has it. With \<^verbatim>\<open>area_calculated\<close>, on a collection that is not empty
  and has no area column (the area column not being the output column), the loop of
  \<^const>\<open>volume\<close> and of \<^const>\<open>floor_area\<close> ends at the first object: the KeyError is
  caught in the function, which prints one line that names the area column, raises
  nothing, and leaves the frame as the column initialisation made it, the output NaN on
  every object. \<^const>\<open>courtyard_area\<close> does the same when the geometry of the first
  object has an exterior ring and the output column is not \<^verbatim>\<open>'geometry'\<close>.
\<close>

theorem missing_area_column_report:
  assumes "objects \<noteq> []"
    and "\<forall>(i, r) \<in> set objects. r area_column = None"
    and "area_column \<noteq> column_name"
  shows "volume objects column_name area_column height_column True =
           \<lparr>frame_after = new_column objects column_name,
            printed = [''Calculating volumes...'', area_column_error area_column],
            returned = Inr RetNone\<rparr> \<and>
         floor_area objects column_name area_column height_column True =
           \<lparr>frame_after = new_column objects column_name,
            printed = [''Calculating floor areas...'', area_column_error area_column],
            returned = Inr RetObjects\<rparr> \<and>
         (column_name \<noteq> ''geometry'' \<and>
          (\<exists>g a. snd (hd objects) ''geometry'' = Some (Geom g) \<and> exterior_area g = Some a) \<longrightarrow>
          courtyard_area objects column_name area_column True =
            \<lparr>frame_after = new_column objects column_name,
             printed = [''Calculating courtyard areas...'', area_column_error area_column],
             returned = Inr RetObjects\<rparr>)"
  using assms volume_missing_area[OF assms(2,3)] floor_area_missing_area[OF assms(2,3)]
    courtyard_area_missing_area[OF assms(2,3)]
  by simp

text \<open>C4 at the two plots without area column.\<close>

theorem missing_area_column_report_witness:
  "printed (volume plots ''volume'' ''area'' ''height'' True) =
     [''Calculating volumes...'',
      ''ERROR: Building area column named area not found. Define area_column or set area_calculated to False.''] \<and>
   returned (volume plots ''volume'' ''area'' ''height'' True) = Inr RetNone \<and>
   snd (frame_after (volume plots ''volume'' ''area'' ''height'' True) ! 1) ''volume'' = Some NaN \<and>
   returned (courtyard_area plots ''courtyard'' ''area'' True) = Inr RetObjects"
proof -
  have "plots \<noteq> []" "\<forall>(i, r) \<in> set plots. r ''area'' = None"
    by (simp_all add: plots_def)
  from missing_area_column_report[OF this, of "''volume''" "''height''"]
    missing_area_column_report[OF this, of "''courtyard''" "''height''"]
  show ?thesis
    by (simp add: plots_def square_def new_column_def area_column_error_def)
qed

text \<open>
  C4 as the specification words it fails. On the two plots, which both lack the area
  column, \<^const>\<open>volume\<close> returns normally; what it reports is one printed line, which
  names neither the metric nor an object, and the loop has stopped at the first plot:
  nothing is collected per object.
\<close>

theorem missing_area_reported_once_counterexample:
  "volume plots ''volume'' ''area'' ''height'' True =
     \<lparr>frame_after = new_column plots ''volume'',
      printed = [''Calculating volumes...'',
        ''ERROR: Building area column named area not found. Define area_column or set area_calculated to False.''],
      returned = Inr RetNone\<rparr>"
  by (simp add: volume_def plots_def new_column_def volume_row_def getitem_def
      area_column_error_def)

text \<open>
  The same line is printed when it is the height column that is missing: the two example
  buildings have their area column, and the message names it all the same.
\<close>

lemma missing_height_reported_as_area:
  "snd (buildings ! 0) ''area'' = Some (Num 100) \<and>
   snd (buildings ! 0) ''storeys'' = None \<and>
   printed (volume buildings ''volume'' ''area'' ''storeys'' True) =
     [''Calculating volumes...'',
      ''ERROR: Building area column named area not found. Define area_column or set area_calculated to False.'']"
  by (simp add: volume_def eval_defs)

text \<open>
  C9, as the code has it. With \<^verbatim>\<open>area_calculated\<close> and no area column (the area column
  not being the output column), \<^const>\<open>volume\<close> and \<^const>\<open>floor_area\<close> propagate no
  exception on any collection, and the collection has been changed all the same: the
  output column exists on every object and holds NaN. \<^const>\<open>courtyard_area\<close>, with
  an output column other than \<^verbatim>\<open>'geometry'\<close>, does the same exactly when the collection
  is empty, or its first object has no \<^verbatim>\<open>'geometry'\<close> entry, or the geometry of its
  first object has an exterior ring. In every other case it raises AttributeError, from
  the geometry read that precedes the area lookup, and the output column holds NaN on
  every object then too.
\<close>

theorem missing_area_column_no_exception:
  assumes "\<forall>(i, r) \<in> set objects. r area_column = None"
    and "area_column \<noteq> column_name"
  shows "returned (volume objects column_name area_column height_column True) = Inr RetNone \<and>
         (\<forall>k < length objects.
            snd (frame_after (volume objects column_name area_column height_column True) ! k)
              column_name = Some NaN) \<and>
         returned (floor_area objects column_name area_column height_column True)
           = Inr RetObjects \<and>
         (\<forall>k < length objects.
            snd (frame_after (floor_area objects column_name area_column height_column True) ! k)
              column_name = Some NaN) \<and>
         (objects = [] \<or> column_name \<noteq> ''geometry'' \<longrightarrow>
          returned (courtyard_area objects column_name area_column True)
            = (if objects = [] \<or> snd (hd objects) ''geometry'' = None \<or>
                  (\<exists>g a. snd (hd objects) ''geometry'' = Some (Geom g) \<and>
                         exterior_area g = Some a)
               then Inr RetObjects else Inl AttributeError) \<and>
          (\<forall>k < length objects.
             snd (frame_after (courtyard_area objects column_name area_column True) ! k)
               column_name = Some NaN))"
proof -
  let ?ring = "\<exists>g a. snd (hd objects) ''geometry'' = Some (Geom g) \<and> exterior_area g = Some a"
  let ?none = "snd (hd objects) ''geometry'' = None"
  have courtyard:
    "returned (courtyard_area objects column_name area_column True)
       = (if objects = [] \<or> ?none \<or> ?ring then Inr RetObjects else Inl AttributeError) \<and>
     frame_after (courtyard_area objects column_name area_column True)
       = new_column objects column_name"
    if c: "objects = [] \<or> column_name \<noteq> ''geometry''"
  proof -
    consider "objects = []" | "objects \<noteq> []" "column_name \<noteq> ''geometry''" ?ring
      | "objects \<noteq> []" "column_name \<noteq> ''geometry''" ?none
      | "objects \<noteq> []" "column_name \<noteq> ''geometry''" "\<not> ?none" "\<not> ?ring"
      using c by blast
    then show ?thesis
    proof cases
      case 1
      then show ?thesis using courtyard_area_missing_area[OF assms] by simp
    next
      case 2
      then show ?thesis using courtyard_area_missing_area[OF assms] by simp
    next
      case 3
      then show ?thesis
        using courtyard_area_no_geometry[of objects column_name area_column] by simp
    next
      case 4
      then show ?thesis
        using courtyard_area_no_ring[of objects column_name area_column] by simp
    qed
  qed
  show ?thesis
    using volume_missing_area[OF assms] floor_area_missing_area[OF assms] courtyard
    by (simp add: nth_new_column)
qed

text \<open>
  C9 at the two plots without area column, at the plot without geometry column, where
  \<^const>\<open>courtyard_area\<close> completes as well, and at the plot whose geometry is
  \<^verbatim>\<open>None\<close>, where it raises AttributeError.
\<close>

theorem missing_area_column_no_exception_witness:
  "returned (volume plots ''volume'' ''area'' ''height'' True) = Inr RetNone \<and>
   snd (frame_after (volume plots ''volume'' ''area'' ''height'' True) ! 0) ''volume'' = Some NaN \<and>
   snd (frame_after (volume plots ''volume'' ''area'' ''height'' True) ! 1) ''volume'' = Some NaN \<and>
   returned (floor_area plots ''floors'' ''area'' ''height'' True) = Inr RetObjects \<and>
   snd (frame_after (floor_area plots ''floors'' ''area'' ''height'' True) ! 1) ''floors'' = Some NaN \<and>
   returned (courtyard_area plots ''courtyard'' ''area'' True) = Inr RetObjects \<and>
   snd (frame_after (courtyard_area plots ''courtyard'' ''area'' True) ! 1) ''courtyard'' = Some NaN \<and>
   returned (courtyard_area bare_plot ''courtyard'' ''area'' True) = Inr RetObjects \<and>
   returned (courtyard_area null_plot ''courtyard'' ''area'' True) = Inl AttributeError \<and>
   snd (frame_after (courtyard_area null_plot ''courtyard'' ''area'' True) ! 0) ''courtyard''
     = Some NaN"
proof -
  have h: "\<forall>(i, r) \<in> set plots. r ''area'' = None" by (simp add: plots_def)
  have len: "length plots = 2" by (simp add: plots_def)
  have b: "\<forall>(i, r) \<in> set bare_plot. r ''area'' = None" by (simp add: bare_plot_def)
  have n: "\<forall>(i, r) \<in> set null_plot. r ''area'' = None" by (simp add: null_plot_def)
  from missing_area_column_no_exception[OF h, of "''volume''" "''height''"]
    missing_area_column_no_exception[OF h, of "''floors''" "''height''"]
    missing_area_column_no_exception[OF h, of "''courtyard''" "''height''"]
  have first:
    "returned (volume plots ''volume'' ''area'' ''height'' True) = Inr RetNone \<and>
     snd (frame_after (volume plots ''volume'' ''area'' ''height'' True) ! 0) ''volume'' = Some NaN \<and>
     snd (frame_after (volume plots ''volume'' ''area'' ''height'' True) ! 1) ''volume'' = Some NaN \<and>
     returned (floor_area plots ''floors'' ''area'' ''height'' True) = Inr RetObjects \<and>
     snd (frame_after (floor_area plots ''floors'' ''area'' ''height'' True) ! 1) ''floors'' = Some NaN \<and>
     returned (courtyard_area plots ''courtyard'' ''area'' True) = Inr RetObjects \<and>
     snd (frame_after (courtyard_area plots ''courtyard'' ''area'' True) ! 1) ''courtyard'' = Some NaN"
    by (simp add: len) (simp add: plots_def square_def)
  from missing_area_column_no_exception[OF b, of "''courtyard''" "''height''"]
  have second: "returned (courtyard_area bare_plot ''courtyard'' ''area'' True) = Inr RetObjects"
    by (simp add: bare_plot_def)
  from missing_area_column_no_exception[OF n, of "''courtyard''" "''height''"]
  have third:
    "returned (courtyard_area null_plot ''courtyard'' ''area'' True) = Inl AttributeError \<and>
     snd (frame_after (courtyard_area null_plot ''courtyard'' ''area'' True) ! 0) ''courtyard''
       = Some NaN"
    by (simp add: null_plot_def)
  from first second third show ?thesis by simp
qed

text \<open>
  C9 as stated fails for \<^const>\<open>courtyard_area\<close>: the geometry is read before the area
  column, so on an object without geometry the AttributeError of that read propagates;
  \<^verbatim>\<open>except KeyError\<close> does not catch it.
\<close>

theorem courtyard_area_null_geometry_counterexample:
  "returned (courtyard_area null_plot ''courtyard'' ''area'' True) = Inl AttributeError"
  by (simp add: courtyard_area_def null_plot_def new_column_def courtyard_area_row_def
      getitem_def)

section \<open>Effective mesh size\<close>

lemma iloc_position:
  "- int (length objects) \<le> n \<Longrightarrow> n < int (length objects)
   \<Longrightarrow> iloc objects n = Inr (snd (objects ! position (length objects) n))"
  by (auto simp: iloc_def position_def Let_def)

lemma position_less: "- int len \<le> n \<Longrightarrow> n < int len \<Longrightarrow> position len n < len"
  by (auto simp: position_def)

lemma position_nonneg: "0 \<le> n \<Longrightarrow> int (position len n) = n"
  by (simp add: position_def)

lemma sum_neighbours_value:
  assumes "\<forall>n \<in> set ns. - int (length cur) \<le> n \<and> n < int (length cur)"
    and "\<forall>k < length cur. snd (cur ! k) ac = Some (Num (b k))"
    and "float_cell t"
  shows "sum_neighbours cur ac t ns
         = Inr (foldl float_add t (map (\<lambda>n. Num (b (position (length cur) n))) ns))"
  using assms(1,3)
proof (induction ns arbitrary: t)
  case Nil
  then show ?case by simp
next
  case (Cons n ns)
  then have rng: "- int (length cur) \<le> n" "n < int (length cur)" by simp_all
  have cell: "snd (cur ! position (length cur) n) ac = Some (Num (b (position (length cur) n)))"
    using assms(2) position_less[OF rng] by simp
  have "float_cell (float_add t (Num (b (position (length cur) n))))"
    by (rule float_cell_float_add)
  from Cons.IH[OF _ this] Cons.prems show ?case
    using iloc_position[OF rng] cell by (simp add: getitem_def py_add_def)
qed

lemma range_labels_nth:
  "map fst objects = map int [0..<length objects] \<Longrightarrow> k < length objects
   \<Longrightarrow> fst (objects ! k) = int k"
  by (metis nth_map nth_upt add_0 diff_zero length_upt)

lemma range_labels_distinct:
  "map fst objects = map int [0..<length objects] \<Longrightarrow> distinct (map fst objects)"
  by (simp add: distinct_map inj_on_def)

lemma range_labels_member:
  assumes "map fst objects = map int [0..<length objects]" "n \<in> fst ` set objects"
  shows "0 \<le> n \<and> n < int (length objects)"
proof -
  have "n \<in> set (map fst objects)" using assms(2) by simp
  then have "n \<in> set (map int [0..<length objects])" using assms(1) by simp
  then show ?thesis by auto
qed

text \<open>
  What a call writes when every neighbour is a position of the frame, counted from the
  start or, when negative, from the end: for the object at position \<open>k\<close>, whose area is
  \<open>b k\<close>, the mesh size of its own area and of the areas at the positions that its
  neighbour list names.
\<close>

lemma effective_mesh_positions:
  assumes labels: "distinct (map fst objects)"
    and cols: "column_name \<noteq> area_column"
    and areas: "\<forall>k < length objects. snd (objects ! k) area_column = Some (Num (b k))"
    and nbs: "\<forall>(i, r) \<in> set objects. \<exists>N. neighbors i = Some N \<and>
                (\<forall>n \<in> set N. - int (length objects) \<le> n \<and> n < int (length objects))"
  shows "returned (effective_mesh objects column_name neighbors area_column) = Inr RetNone"
    and "k < length objects \<Longrightarrow> neighbors (fst (objects ! k)) = Some N \<Longrightarrow>
         snd (frame_after (effective_mesh objects column_name neighbors area_column) ! k)
           column_name
         = Some (mesh_size (b k) (map (\<lambda>n. b (position (length objects) n)) N))"
proof -
  let ?c = column_name and ?ac = area_column and ?len = "length objects"
  let ?v = "\<lambda>i (r::row). case r ?ac of
              Some (Num own) \<Rightarrow>
                mesh_size own (map (\<lambda>n. b (position ?len n)) (the (neighbors i)))
            | _ \<Rightarrow> NaN"
  have body: "effective_mesh_row neighbors ?ac i (r(?c \<mapsto> NaN)) cur = Inr (?v i (r(?c \<mapsto> NaN)))"
    if mem: "(i, r) \<in> set objects" and kept: "others_kept ?c (new_column objects ?c) cur"
    for i r cur
  proof -
    from nbs mem obtain Ni where Ni: "neighbors i = Some Ni"
      "\<forall>n \<in> set Ni. - int ?len \<le> n \<and> n < int ?len" by auto
    from mem obtain j where j: "j < ?len" "objects ! j = (i, r)"
      by (auto simp: in_set_conv_nth)
    with areas have own: "r ?ac = Some (Num (b j))" by (metis snd_conv)
    have len: "length cur = ?len" using others_kept_length[OF kept] by simp
    have cur: "\<forall>k < length cur. snd (cur ! k) ?ac = Some (Num (b k))"
    proof (intro allI impI)
      fix k assume "k < length cur"
      then have lt: "k < ?len" using len by simp
      have "snd (cur ! k) ?ac = snd (new_column objects ?c ! k) ?ac"
        using others_kept_nth[OF kept, of k ?ac] lt cols by simp
      also have "\<dots> = snd (objects ! k) ?ac"
        using lt cols by (simp add: nth_new_column)
      finally show "snd (cur ! k) ?ac = Some (Num (b k))" using areas lt by simp
    qed
    have rng: "\<forall>n \<in> set Ni. - int (length cur) \<le> n \<and> n < int (length cur)"
      using Ni(2) len by simp
    have sum: "sum_neighbours cur ?ac (Num (b j)) Ni
               = Inr (foldl float_add (Num (b j))
                        (map (\<lambda>n. Num (b (position (length cur) n))) Ni))"
      by (rule sum_neighbours_value[OF rng cur]) simp
    have "float_cell (foldl float_add (Num (b j))
                        (map (\<lambda>n. Num (b (position (length cur) n))) Ni))"
      by (rule float_cell_foldl) simp
    then show ?thesis
      using Ni(1) own cols sum len
      by (simp add: effective_mesh_row_def getitem_def py_truediv_def mesh_size_def comp_def)
  qed
  have loop: "iterrows_loop (effective_mesh_row neighbors ?ac) ?c
                (new_column objects ?c) (new_column objects ?c)
              = (map (\<lambda>(i, r). (i, r(?c \<mapsto> ?v i (r(?c \<mapsto> NaN))))) objects, None)"
    using iterrows_new_column_ok[of objects ?c "effective_mesh_row neighbors ?ac" ?v]
      labels body by blast
  have run: "effective_mesh objects ?c neighbors ?ac =
        \<lparr>frame_after = map (\<lambda>(i, r). (i, r(?c \<mapsto> ?v i (r(?c \<mapsto> NaN))))) objects,
         printed = [''Calculating effective mesh size...''],
         returned = Inr RetNone\<rparr>"
    using loop by (simp add: effective_mesh_def)
  show "returned (effective_mesh objects ?c neighbors ?ac) = Inr RetNone"
    unfolding run by simp
  show "snd (frame_after (effective_mesh objects ?c neighbors ?ac) ! k) ?c
        = Some (mesh_size (b k) (map (\<lambda>n. b (position ?len n)) N))"
    if "k < ?len" "neighbors (fst (objects ! k)) = Some N"
    unfolding run using that areas cols by (simp add: case_prod_unfold)
qed

text \<open>
  C5, as the code has it. The neighbours are read by position (\<^verbatim>\<open>objects.iloc[n]\<close>), so
  the identifiers of the objects have to be their positions \<open>0, 1, ...\<close>. On such a
  collection, with a binary64 number \<open>a i\<close> as the area of every object \<open>i\<close>, an output
  column other than the area column, and a neighbour relation that gives every object a
  list of identifiers of the collection: \<^const>\<open>effective_mesh\<close> completes and writes
  for the object \<open>k\<close> with neighbours \<open>N\<close> the binary64 sum of its own area and the areas
  of \<open>N\<close>, added one after the other, divided in binary64 by the number of neighbours
  plus one. With no neighbours that is its own area. It is the exact quotient when the
  partial sums and the quotient are binary64 numbers; so it is \<open>a k\<close> when all the areas
  are equal and the multiples \<open>2 * a k, ..., (|N| + 1) * a k\<close> are binary64 numbers.
\<close>

theorem effective_mesh_value:
  assumes labels: "map fst objects = map int [0..<length objects]"
    and cols: "column_name \<noteq> area_column"
    and areas: "\<forall>(i, r) \<in> set objects. r area_column = Some (Num (a i)) \<and> binary64 (a i)"
    and nbs: "\<forall>(i, r) \<in> set objects. \<exists>N. neighbors i = Some N \<and> set N \<subseteq> fst ` set objects"
    and k: "k < length objects" "neighbors (int k) = Some N"
  shows "returned (effective_mesh objects column_name neighbors area_column) = Inr RetNone \<and>
         snd (frame_after (effective_mesh objects column_name neighbors area_column) ! k)
           column_name = Some (mesh_size (a (int k)) (map a N)) \<and>
         (N = [] \<longrightarrow>
            snd (frame_after (effective_mesh objects column_name neighbors area_column) ! k)
              column_name = Some (Num (a (int k)))) \<and>
         ((\<forall>j \<le> length N. binary64 (a (int k) + sum_list (take j (map a N)))) \<and>
          binary64 ((a (int k) + (\<Sum>n\<leftarrow>N. a n)) / real (length N + 1)) \<longrightarrow>
            snd (frame_after (effective_mesh objects column_name neighbors area_column) ! k)
              column_name = Some (Num ((a (int k) + (\<Sum>n\<leftarrow>N. a n)) / real (length N + 1)))) \<and>
         ((\<forall>n \<in> set N. a n = a (int k)) \<and>
          (\<forall>j \<le> length N. binary64 (real (j + 1) * a (int k))) \<longrightarrow>
            snd (frame_after (effective_mesh objects column_name neighbors area_column) ! k)
              column_name = Some (Num (a (int k))))"
proof -
  let ?len = "length objects"
  have lab: "fst (objects ! j) = int j" if "j < ?len" for j
    by (rule range_labels_nth[OF labels that])
  have at: "snd (objects ! j) area_column = Some (Num (a (int j))) \<and> binary64 (a (int j))"
    if "j < ?len" for j
    using areas nth_mem[OF that] lab[OF that] by (auto simp: case_prod_unfold)
  have pos: "\<forall>j < ?len. snd (objects ! j) area_column = Some (Num ((\<lambda>j. a (int j)) j))"
    using at by simp
  have inside: "\<forall>(i, r) \<in> set objects. \<exists>N. neighbors i = Some N \<and>
                  (\<forall>n \<in> set N. - int ?len \<le> n \<and> n < int ?len)"
  proof (intro ballI, clarify)
    fix i r assume "(i, r) \<in> set objects"
    with nbs obtain Ni where Ni: "neighbors i = Some Ni" "set Ni \<subseteq> fst ` set objects" by auto
    have "\<forall>n \<in> set Ni. - int ?len \<le> n \<and> n < int ?len"
      using range_labels_member[OF labels] Ni(2) by fastforce
    with Ni(1) show "\<exists>N. neighbors i = Some N \<and> (\<forall>n \<in> set N. - int ?len \<le> n \<and> n < int ?len)"
      by blast
  qed
  note run = effective_mesh_positions[OF range_labels_distinct[OF labels] cols pos inside]
  have N: "neighbors (fst (objects ! k)) = Some N" using k lab by simp
  have "(objects ! k) \<in> set objects" using k(1) by simp
  with nbs N have sub: "set N \<subseteq> fst ` set objects" by (fastforce simp: case_prod_unfold)
  have same: "map (\<lambda>n. a (int (position ?len n))) N = map a N"
  proof (rule map_cong[OF refl])
    fix n assume "n \<in> set N"
    with sub range_labels_member[OF labels] have "0 \<le> n" by blast
    then show "a (int (position ?len n)) = a n" by (simp add: position_nonneg)
  qed
  have val: "snd (frame_after (effective_mesh objects column_name neighbors area_column) ! k)
               column_name = Some (mesh_size (a (int k)) (map a N))"
    using run(2)[OF k(1) N] same by simp
  have own: "binary64 (a (int k))" using at[OF k(1)] by simp
  have alone: "mesh_size (a (int k)) (map a N) = Num (a (int k))" if "N = []"
    using that mesh_size_alone[OF own] by simp
  have exact: "mesh_size (a (int k)) (map a N)
               = Num ((a (int k) + (\<Sum>n\<leftarrow>N. a n)) / real (length N + 1))"
    if "\<forall>j \<le> length N. binary64 (a (int k) + sum_list (take j (map a N)))"
      and "binary64 ((a (int k) + (\<Sum>n\<leftarrow>N. a n)) / real (length N + 1))"
    using mesh_size_exact[of "map a N" "a (int k)"] that by simp
  have equal: "mesh_size (a (int k)) (map a N) = Num (a (int k))"
    if "\<forall>n \<in> set N. a n = a (int k)" "\<forall>j \<le> length N. binary64 (real (j + 1) * a (int k))"
    using mesh_size_equal[of "map a N" "a (int k)"] that by simp
  show ?thesis using run(1) val alone exact equal by simp
qed

text \<open>
  C5 at the first example building (areas 100 and 4: the mean is 52) and at the three
  plots of area 25, one with two neighbours and one with none.
\<close>

theorem effective_mesh_value_witness:
  "snd (frame_after (effective_mesh buildings ''mesh'' pair_neighbours ''area'') ! 0)
     ''mesh'' = Some (Num 52) \<and>
   snd (frame_after (effective_mesh terraces ''mesh'' row_neighbours ''area'') ! 1)
     ''mesh'' = Some (Num 25) \<and>
   snd (frame_after (effective_mesh terraces ''mesh'' row_neighbours ''area'') ! 2)
     ''mesh'' = Some (Num 25)"
proof -
  have two: "[0..<2] = [0, Suc 0]" and three: "[0..<3] = [0, Suc 0, 2]"
    by (simp_all add: upt_rec)
  have b1: "map fst buildings = map int [0..<length buildings]"
    by (simp add: buildings_def two)
  have b2: "\<forall>(i, r) \<in> set buildings.
              r ''area'' = Some (Num (if i = 0 then 100 else 4)) \<and>
              binary64 (if i = 0 then 100 else 4)"
    by (simp add: buildings_def binary64_def round_binary64_numeral)
  have b3: "\<forall>(i, r) \<in> set buildings. \<exists>N. pair_neighbours i = Some N \<and> set N \<subseteq> fst ` set buildings"
    by (simp add: buildings_def pair_neighbours_def)
  have c: "''mesh'' \<noteq> ''area''" by simp
  have b4: "0 < length buildings" "pair_neighbours (int 0) = Some [1]"
    by (simp_all add: buildings_def pair_neighbours_def)
  have first:
    "snd (frame_after (effective_mesh buildings ''mesh'' pair_neighbours ''area'') ! 0) ''mesh''
       = Some (Num 52)"
    using effective_mesh_value[OF b1 c b2 b3 b4]
    by (simp add: mesh_size_def round_binary64_numeral)
  have t1: "map fst terraces = map int [0..<length terraces]"
    by (simp add: terraces_def three)
  have t2: "\<forall>(i, r) \<in> set terraces.
              r ''area'' = Some (Num ((\<lambda>i. 25) i)) \<and> binary64 ((\<lambda>i. 25) i)"
    by (simp add: terraces_def binary64_def round_binary64_numeral)
  have t3: "\<forall>(i, r) \<in> set terraces. \<exists>N. row_neighbours i = Some N \<and> set N \<subseteq> fst ` set terraces"
    by (simp add: terraces_def row_neighbours_def)
  have t4: "1 < length terraces" "row_neighbours (int 1) = Some [0, 2]"
    by (simp_all add: terraces_def row_neighbours_def)
  have t5: "2 < length terraces" "row_neighbours (int 2) = Some []"
    by (simp_all add: terraces_def row_neighbours_def)
  have second:
    "snd (frame_after (effective_mesh terraces ''mesh'' row_neighbours ''area'') ! 1) ''mesh''
       = Some (Num 25)"
    using effective_mesh_value[OF t1 c t2 t3 t4]
    by (simp add: mesh_size_def round_binary64_numeral)
  have third:
    "snd (frame_after (effective_mesh terraces ''mesh'' row_neighbours ''area'') ! 2) ''mesh''
       = Some (Num 25)"
    using effective_mesh_value[OF t1 c t2 t3 t5]
    by (simp add: mesh_size_def round_binary64_numeral)
  from first second third show ?thesis by simp
qed

text \<open>
  C5 as stated fails in two ways. Where identifiers are not positions: in
  \<^const>\<open>relabelled\<close> the object with identifier 1 has area 100 and the single neighbour
  0, whose area is 4; the mean is 52. \<^const>\<open>effective_mesh\<close> reads the neighbour 0 at
  position 0, which is the object itself, and writes 100. And where the sum rounds:
  the three plots of \<^const>\<open>tenths\<close> all have the area \<^verbatim>\<open>0.1\<close>, and for the middle one,
  whose neighbours are the other two, \<^const>\<open>effective_mesh\<close> writes the next binary64
  number, \<^verbatim>\<open>0.10000000000000002\<close>.
\<close>

theorem effective_mesh_counterexample:
  "pair_neighbours 1 = Some [0] \<and>
   fst (relabelled ! 0) = 1 \<and> snd (relabelled ! 0) ''area'' = Some (Num 100) \<and>
   fst (relabelled ! 1) = 0 \<and> snd (relabelled ! 1) ''area'' = Some (Num 4) \<and>
   returned (effective_mesh relabelled ''mesh'' pair_neighbours ''area'') = Inr RetNone \<and>
   snd (frame_after (effective_mesh relabelled ''mesh'' pair_neighbours ''area'') ! 0) ''mesh''
     = Some (Num 100) \<and>
   round_binary64 (1 / 10) = Num tenth \<and>
   row_neighbours 1 = Some [0, 2] \<and>
   map (\<lambda>(i, r). (i, r ''area'')) tenths
     = [(0, Some (Num tenth)), (1, Some (Num tenth)), (2, Some (Num tenth))] \<and>
   returned (effective_mesh tenths ''mesh'' row_neighbours ''area'') = Inr RetNone \<and>
   snd (frame_after (effective_mesh tenths ''mesh'' row_neighbours ''area'') ! 1) ''mesh''
     = Some (Num (7205759403792795 / 2 ^ 56)) \<and>
   7205759403792795 / 2 ^ 56 \<noteq> tenth"
proof -
  have by_position:
    "pair_neighbours 1 = Some [0] \<and>
     fst (relabelled ! 0) = 1 \<and> snd (relabelled ! 0) ''area'' = Some (Num 100) \<and>
     fst (relabelled ! 1) = 0 \<and> snd (relabelled ! 1) ''area'' = Some (Num 4) \<and>
     returned (effective_mesh relabelled ''mesh'' pair_neighbours ''area'') = Inr RetNone \<and>
     snd (frame_after (effective_mesh relabelled ''mesh'' pair_neighbours ''area'') ! 0) ''mesh''
       = Some (Num 100)"
    by (simp add: effective_mesh_def relabelled_def pair_neighbours_def square_def
        new_column_def loc_set_def getitem_def effective_mesh_row_def iloc_def
        py_add_def py_truediv_def round_binary64_numeral)
  have d: "distinct (map fst tenths)" by (simp add: tenths_def)
  have c: "''mesh'' \<noteq> ''area''" by simp
  have a: "\<forall>k < length tenths. snd (tenths ! k) ''area'' = Some (Num ((\<lambda>k. tenth) k))"
    by (simp add: tenths_def nth_Cons split: nat.splits)
  have n: "\<forall>(i, r) \<in> set tenths. \<exists>N. row_neighbours i = Some N \<and>
             (\<forall>n \<in> set N. - int (length tenths) \<le> n \<and> n < int (length tenths))"
    by (simp add: tenths_def row_neighbours_def)
  have k: "1 < length tenths" "row_neighbours (fst (tenths ! 1)) = Some [0, 2]"
    by (simp_all add: tenths_def row_neighbours_def)
  have rounded:
    "returned (effective_mesh tenths ''mesh'' row_neighbours ''area'') = Inr RetNone \<and>
     snd (frame_after (effective_mesh tenths ''mesh'' row_neighbours ''area'') ! 1) ''mesh''
       = Some (Num (7205759403792795 / 2 ^ 56))"
    using effective_mesh_positions(1)[OF d c a n] effective_mesh_positions(2)[OF d c a n k]
    by (simp add: mesh_size_tenths)
  have data: "row_neighbours 1 = Some [0, 2] \<and>
     map (\<lambda>(i, r). (i, r ''area'')) tenths
       = [(0, Some (Num tenth)), (1, Some (Num tenth)), (2, Some (Num tenth))]"
    by (simp add: tenths_def row_neighbours_def)
  from by_position rounded data tenth_literal mesh_size_differs show ?thesis by blast
qed

text \<open>
  While the area column holds floats and every object has its neighbour list, the only
  exception the loop can raise is the IndexError of \<^verbatim>\<open>iloc\<close>. It raises it at the first
  neighbour outside the frame, and raises nothing when there is none.
\<close>

lemma py_add_float:
  "float_cell x \<Longrightarrow> float_cell y \<Longrightarrow> \<exists>z. py_add x y = Inr z \<and> float_cell z"
  by (simp add: py_add_def float_cell_float_add)

lemma py_truediv_float: "float_cell x \<Longrightarrow> \<exists>z. py_truediv x n = Inr z \<and> float_cell z"
  by (simp add: py_truediv_def float_cell_float_div)

lemma float_column_nth:
  "float_column c objects \<Longrightarrow> k < length objects
   \<Longrightarrow> \<exists>v. snd (objects ! k) c = Some v \<and> float_cell v"
  unfolding float_column_def using nth_mem by fastforce

lemma float_column_new_column:
  "\<forall>(i, r) \<in> set objects. \<exists>x. r ac = Some (Num x) \<Longrightarrow> float_column ac (new_column objects c)"
  by (auto simp: float_column_def new_column_def)

lemma float_column_loc_set:
  "float_column ac objects \<Longrightarrow> float_cell v \<Longrightarrow> float_column ac (loc_set objects i c v)"
  by (auto simp: float_column_def loc_set_def split: if_splits)

lemma iloc_cases:
  "iloc objects n = Inl IndexError \<or>
   (\<exists>k < length objects. iloc objects n = Inr (snd (objects ! k)))"
proof -
  define j where "j = (if n < 0 then n + int (length objects) else n)"
  have eq: "iloc objects n =
      (if 0 \<le> j \<and> j < int (length objects) then Inr (snd (objects ! nat j))
       else Inl IndexError)"
    by (simp add: iloc_def Let_def j_def)
  show ?thesis
  proof (cases "0 \<le> j \<and> j < int (length objects)")
    case True
    then have "nat j < length objects" by auto
    moreover from True eq have "iloc objects n = Inr (snd (objects ! nat j))" by simp
    ultimately show ?thesis by blast
  next
    case False
    with eq show ?thesis by simp
  qed
qed

lemma iloc_outside:
  "int (length objects) \<le> n \<or> n < - int (length objects) \<Longrightarrow> iloc objects n = Inl IndexError"
  by (auto simp: iloc_def Let_def)

lemma sum_neighbours_float:
  assumes "float_column ac cur" "float_cell t"
  shows "sum_neighbours cur ac t ns = Inl IndexError \<or>
         (\<exists>z. sum_neighbours cur ac t ns = Inr z \<and> float_cell z)"
  using assms(2)
proof (induction ns arbitrary: t)
  case Nil
  then show ?case by simp
next
  case (Cons n ns)
  from iloc_cases[of cur n] show ?case
  proof
    assume "iloc cur n = Inl IndexError"
    then show ?thesis by simp
  next
    assume "\<exists>k < length cur. iloc cur n = Inr (snd (cur ! k))"
    then obtain k where k: "k < length cur" "iloc cur n = Inr (snd (cur ! k))" by blast
    from float_column_nth[OF assms(1) k(1)] obtain v where
      v: "snd (cur ! k) ac = Some v" "float_cell v" by blast
    from py_add_float[OF Cons.prems v(2)] obtain z where
      z: "py_add t v = Inr z" "float_cell z" by blast
    from Cons.IH[OF z(2)] show ?thesis using k(2) v(1) z(1) by (simp add: getitem_def)
  qed
qed

lemma sum_neighbours_outside:
  assumes "float_column ac cur" "float_cell t" "n \<in> set ns"
    and "int (length cur) \<le> n \<or> n < - int (length cur)"
  shows "sum_neighbours cur ac t ns = Inl IndexError"
  using assms(2,3)
proof (induction ns arbitrary: t)
  case Nil
  then show ?case by simp
next
  case (Cons m ns)
  from iloc_cases[of cur m] show ?case
  proof
    assume "iloc cur m = Inl IndexError"
    then show ?thesis by simp
  next
    assume "\<exists>k < length cur. iloc cur m = Inr (snd (cur ! k))"
    then obtain k where k: "k < length cur" "iloc cur m = Inr (snd (cur ! k))" by blast
    with iloc_outside[OF assms(4)] have "m \<noteq> n" by auto
    with Cons.prems(2) have mem: "n \<in> set ns" by simp
    from float_column_nth[OF assms(1) k(1)] obtain v where
      v: "snd (cur ! k) ac = Some v" "float_cell v" by blast
    from py_add_float[OF Cons.prems(1) v(2)] obtain z where
      z: "py_add t v = Inr z" "float_cell z" by blast
    from Cons.IH[OF z(2) mem] show ?thesis using k(2) v(1) z(1) by (simp add: getitem_def)
  qed
qed

lemma sum_neighbours_inside:
  assumes "float_column ac cur" "float_cell t"
    and "\<forall>n \<in> set ns. - int (length cur) \<le> n \<and> n < int (length cur)"
  shows "\<exists>z. sum_neighbours cur ac t ns = Inr z \<and> float_cell z"
  using assms(2,3)
proof (induction ns arbitrary: t)
  case Nil
  then show ?case by simp
next
  case (Cons n ns)
  then have rng: "- int (length cur) \<le> n" "n < int (length cur)" by simp_all
  from float_column_nth[OF assms(1) position_less[OF rng]] obtain v where
    v: "snd (cur ! position (length cur) n) ac = Some v" "float_cell v" by blast
  from py_add_float[OF Cons.prems(1) v(2)] obtain z where
    z: "py_add t v = Inr z" "float_cell z" by blast
  from Cons.IH[OF z(2)] Cons.prems(2) show ?case
    using iloc_position[OF rng] v(1) z(1) by (simp add: getitem_def)
qed

lemma effective_mesh_row_float:
  assumes "float_column ac cur" "neighbors i = Some N" "r ac = Some t" "float_cell t"
  shows "effective_mesh_row neighbors ac i r cur = Inl IndexError \<or>
         (\<exists>z. effective_mesh_row neighbors ac i r cur = Inr z \<and> float_cell z)"
proof -
  from sum_neighbours_float[OF assms(1,4), of N] show ?thesis
  proof
    assume "sum_neighbours cur ac t N = Inl IndexError"
    then show ?thesis using assms(2,3) by (simp add: effective_mesh_row_def getitem_def)
  next
    assume "\<exists>z. sum_neighbours cur ac t N = Inr z \<and> float_cell z"
    then obtain z where z: "sum_neighbours cur ac t N = Inr z" "float_cell z" by blast
    from py_truediv_float[OF z(2), of "length N + 1"] show ?thesis
      using assms(2,3) z(1) by (auto simp: effective_mesh_row_def getitem_def)
  qed
qed

lemma effective_mesh_row_outside:
  assumes "float_column ac cur" "neighbors i = Some N" "r ac = Some t" "float_cell t"
    and "n \<in> set N" "int (length cur) \<le> n \<or> n < - int (length cur)"
  shows "effective_mesh_row neighbors ac i r cur = Inl IndexError"
  using sum_neighbours_outside[OF assms(1,4,5,6)] assms(2,3)
  by (simp add: effective_mesh_row_def getitem_def)

lemma effective_mesh_row_inside:
  assumes "float_column ac cur" "neighbors i = Some N" "r ac = Some t" "float_cell t"
    and "\<forall>n \<in> set N. - int (length cur) \<le> n \<and> n < int (length cur)"
  shows "\<exists>z. effective_mesh_row neighbors ac i r cur = Inr z \<and> float_cell z"
proof -
  from sum_neighbours_inside[OF assms(1,4,5)] obtain z where
    z: "sum_neighbours cur ac t N = Inr z" "float_cell z" by blast
  from py_truediv_float[OF z(2), of "length N + 1"] show ?thesis
    using assms(2,3) z(1) by (auto simp: effective_mesh_row_def getitem_def)
qed

lemma effective_mesh_loop_outside:
  assumes "\<forall>(i, r) \<in> set rows. neighbors i \<noteq> None \<and> (\<exists>t. r ac = Some t \<and> float_cell t)"
    and "float_column ac cur"
    and "\<exists>(i, r) \<in> set rows. \<exists>N n. neighbors i = Some N \<and> n \<in> set N \<and>
           (int (length cur) \<le> n \<or> n < - int (length cur))"
  shows "snd (iterrows_loop (effective_mesh_row neighbors ac) c rows cur) = Some IndexError"
  using assms
proof (induction rows arbitrary: cur)
  case Nil
  then show ?case by simp
next
  case (Cons x rows)
  obtain i r where x: "x = (i, r)" by (cases x)
  from Cons.prems(1) x obtain N t where
    N: "neighbors i = Some N" and t: "r ac = Some t" "float_cell t" by auto
  from effective_mesh_row_float[where r = r and neighbors = neighbors and i = i, OF Cons.prems(2) N t] show ?case
  proof
    assume "effective_mesh_row neighbors ac i r cur = Inl IndexError"
    then show ?thesis using x by simp
  next
    assume "\<exists>z. effective_mesh_row neighbors ac i r cur = Inr z \<and> float_cell z"
    then obtain z where z: "effective_mesh_row neighbors ac i r cur = Inr z" "float_cell z"
      by blast
    have good: "\<not> (\<exists>n \<in> set N. int (length cur) \<le> n \<or> n < - int (length cur))"
      using effective_mesh_row_outside[where r = r and neighbors = neighbors and i = i, OF Cons.prems(2) N t] z(1) by auto
    with Cons.prems(3) x N have rest:
      "\<exists>(i', r') \<in> set rows. \<exists>N n. neighbors i' = Some N \<and> n \<in> set N \<and>
         (int (length (loc_set cur i c z)) \<le> n \<or> n < - int (length (loc_set cur i c z)))"
      by auto
    have "snd (iterrows_loop (effective_mesh_row neighbors ac) c rows (loc_set cur i c z))
          = Some IndexError"
    proof (rule Cons.IH)
      show "\<forall>(i, r) \<in> set rows. neighbors i \<noteq> None \<and> (\<exists>t. r ac = Some t \<and> float_cell t)"
        using Cons.prems(1) by simp
      show "float_column ac (loc_set cur i c z)"
        by (rule float_column_loc_set[OF Cons.prems(2) z(2)])
      show "\<exists>(i', r') \<in> set rows. \<exists>N n. neighbors i' = Some N \<and> n \<in> set N \<and>
         (int (length (loc_set cur i c z)) \<le> n \<or> n < - int (length (loc_set cur i c z)))"
        by (rule rest)
    qed
    then show ?thesis using x z(1) by simp
  qed
qed

lemma effective_mesh_loop_inside:
  assumes "\<forall>(i, r) \<in> set rows. neighbors i \<noteq> None \<and> (\<exists>t. r ac = Some t \<and> float_cell t)"
    and "float_column ac cur"
    and "\<forall>(i, r) \<in> set rows. \<forall>N. neighbors i = Some N \<longrightarrow>
           (\<forall>n \<in> set N. - int (length cur) \<le> n \<and> n < int (length cur))"
  shows "snd (iterrows_loop (effective_mesh_row neighbors ac) c rows cur) = None"
  using assms
proof (induction rows arbitrary: cur)
  case Nil
  then show ?case by simp
next
  case (Cons x rows)
  obtain i r where x: "x = (i, r)" by (cases x)
  from Cons.prems(1) x obtain N t where
    N: "neighbors i = Some N" and t: "r ac = Some t" "float_cell t" by auto
  from Cons.prems(3) x N have "\<forall>n \<in> set N. - int (length cur) \<le> n \<and> n < int (length cur)"
    by auto
  from effective_mesh_row_inside[where r = r and neighbors = neighbors and i = i,
      OF Cons.prems(2) N t this]
  obtain z where z: "effective_mesh_row neighbors ac i r cur = Inr z" "float_cell z" by blast
  have "snd (iterrows_loop (effective_mesh_row neighbors ac) c rows (loc_set cur i c z)) = None"
  proof (rule Cons.IH)
    show "\<forall>(i, r) \<in> set rows. neighbors i \<noteq> None \<and> (\<exists>t. r ac = Some t \<and> float_cell t)"
      using Cons.prems(1) by simp
    show "float_column ac (loc_set cur i c z)"
      by (rule float_column_loc_set[OF Cons.prems(2) z(2)])
    show "\<forall>(i', r') \<in> set rows. \<forall>N. neighbors i' = Some N \<longrightarrow>
            (\<forall>n \<in> set N. - int (length (loc_set cur i c z)) \<le> n \<and>
                          n < int (length (loc_set cur i c z)))"
      using Cons.prems(3) by (simp add: loc_set_def)
  qed
  then show ?case using x z(1) by simp
qed

text \<open>
  C6, as the code has it. On a collection whose objects all have a numeric area and a
  neighbour list, \<^const>\<open>effective_mesh\<close> raises IndexError, and the call ends there,
  when the list of some object holds a position beyond the end of the collection or a
  negative one before its start, and raises nothing when no list does. A negative
  neighbour \<open>n\<close> within the collection is then read at the position \<open>n + len\<close>, from the
  end: with distinct labels and an output column other than the area column, the value
  written for the object at position \<open>k\<close> is the mesh size of its area and the areas at
  the positions that its neighbour list names.
\<close>

theorem effective_mesh_index_error:
  assumes "\<forall>(i, r) \<in> set objects. neighbors i \<noteq> None"
    and "\<forall>k < length objects. snd (objects ! k) area_column = Some (Num (b k))"
  shows "returned (effective_mesh objects column_name neighbors area_column)
           = (if \<exists>(i, r) \<in> set objects. \<exists>N n. neighbors i = Some N \<and> n \<in> set N \<and>
                   (int (length objects) \<le> n \<or> n < - int (length objects))
              then Inl IndexError else Inr RetNone) \<and>
         ((\<forall>(i, r) \<in> set objects. \<forall>N n. neighbors i = Some N \<and> n \<in> set N \<longrightarrow>
              - int (length objects) \<le> n \<and> n < int (length objects)) \<and>
          distinct (map fst objects) \<and> column_name \<noteq> area_column \<longrightarrow>
          (\<forall>k < length objects. \<forall>N. neighbors (fst (objects ! k)) = Some N \<longrightarrow>
             snd (frame_after (effective_mesh objects column_name neighbors area_column) ! k)
               column_name
             = Some (mesh_size (b k) (map (\<lambda>n. b (position (length objects) n)) N))))"
proof -
  let ?new = "new_column objects column_name"
  let ?loop = "iterrows_loop (effective_mesh_row neighbors area_column) column_name ?new ?new"
  let ?outside = "\<exists>(i, r) \<in> set objects. \<exists>N n. neighbors i = Some N \<and> n \<in> set N \<and>
                    (int (length objects) \<le> n \<or> n < - int (length objects))"
  have num: "\<forall>(i, r) \<in> set objects. \<exists>x. r area_column = Some (Num x)"
  proof (intro ballI, clarify)
    fix i r assume "(i, r) \<in> set objects"
    then obtain j where "j < length objects" "objects ! j = (i, r)"
      by (auto simp: in_set_conv_nth)
    with assms(2) show "\<exists>x. r area_column = Some (Num x)" by (metis snd_conv)
  qed
  have rows: "\<forall>(i, r) \<in> set ?new. neighbors i \<noteq> None \<and>
                (\<exists>t. r area_column = Some t \<and> float_cell t)"
    using assms(1) num by (auto simp: new_column_def)
  have col: "float_column area_column ?new"
    using num by (intro float_column_new_column) auto
  have ret: "returned (effective_mesh objects column_name neighbors area_column)
             = (case snd ?loop of Some e \<Rightarrow> Inl e | None \<Rightarrow> Inr RetNone)"
    by (cases ?loop) (simp add: effective_mesh_def split: option.splits)
  have first: "returned (effective_mesh objects column_name neighbors area_column)
               = (if ?outside then Inl IndexError else Inr RetNone)"
  proof (cases ?outside)
    case True
    then obtain i r N n where o: "(i, r) \<in> set objects" "neighbors i = Some N" "n \<in> set N"
      "int (length objects) \<le> n \<or> n < - int (length objects)" by blast
    have "(i, r(column_name \<mapsto> NaN)) \<in> set ?new"
      using o(1) by (force simp: new_column_def)
    then have bad: "\<exists>(i, r) \<in> set ?new. \<exists>N n. neighbors i = Some N \<and> n \<in> set N \<and>
           (int (length ?new) \<le> n \<or> n < - int (length ?new))"
      using o(2,3,4) by (intro bexI[of _ "(i, r(column_name \<mapsto> NaN))"]) auto
    have "snd ?loop = Some IndexError"
      by (rule effective_mesh_loop_outside[OF rows col bad])
    with True ret show ?thesis by simp
  next
    case False
    have good: "\<forall>(i, r) \<in> set ?new. \<forall>N. neighbors i = Some N \<longrightarrow>
           (\<forall>n \<in> set N. - int (length ?new) \<le> n \<and> n < int (length ?new))"
    proof (intro ballI, clarify)
      fix i r' N n assume m: "(i, r') \<in> set ?new" "neighbors i = Some N" "n \<in> set N"
      from m(1) obtain r where "(i, r) \<in> set objects" by (auto simp: new_column_def)
      with False m(2,3) show "- int (length ?new) \<le> n \<and> n < int (length ?new)"
        by (fastforce simp: new_column_def)
    qed
    have "snd ?loop = None" by (rule effective_mesh_loop_inside[OF rows col good])
    with False ret show ?thesis by simp
  qed
  have second: "snd (frame_after (effective_mesh objects column_name neighbors area_column) ! k)
                  column_name
                = Some (mesh_size (b k) (map (\<lambda>n. b (position (length objects) n)) N))"
    if inside: "\<forall>(i, r) \<in> set objects. \<forall>N n. neighbors i = Some N \<and> n \<in> set N \<longrightarrow>
                  - int (length objects) \<le> n \<and> n < int (length objects)"
      and d: "distinct (map fst objects)" and c: "column_name \<noteq> area_column"
      and k: "k < length objects" "neighbors (fst (objects ! k)) = Some N" for k N
  proof -
    have nbs: "\<forall>(i, r) \<in> set objects. \<exists>N. neighbors i = Some N \<and>
                 (\<forall>n \<in> set N. - int (length objects) \<le> n \<and> n < int (length objects))"
      using assms(1) inside by fastforce
    show ?thesis by (rule effective_mesh_positions(2)[OF d c assms(2) nbs k])
  qed
  from first second show ?thesis by blast
qed

text \<open>
  C6 at the two example buildings: the first with the neighbour 5, and then with the
  neighbours \<open>- 2\<close> and \<open>- 1\<close>, which are the two buildings themselves, the second with the
  neighbour \<open>- 2\<close>, the first building.
\<close>

theorem effective_mesh_index_error_witness:
  "returned (effective_mesh buildings ''mesh'' far_neighbours ''area'') = Inl IndexError \<and>
   returned (effective_mesh buildings ''mesh'' end_neighbours ''area'') = Inr RetNone \<and>
   snd (frame_after (effective_mesh buildings ''mesh'' end_neighbours ''area'') ! 0) ''mesh''
     = Some (Num 68) \<and>
   snd (frame_after (effective_mesh buildings ''mesh'' end_neighbours ''area'') ! 1) ''mesh''
     = Some (Num 52)"
proof -
  have nb: "\<forall>(i, r) \<in> set buildings. far_neighbours i \<noteq> None"
    "\<forall>(i, r) \<in> set buildings. end_neighbours i \<noteq> None"
    by (simp_all add: buildings_def end_neighbours_def far_neighbours_def)
  have ar: "\<forall>k < length buildings.
              snd (buildings ! k) ''area'' = Some (Num ((\<lambda>k. if k = 0 then 100 else 4) k))"
    by (simp add: buildings_def nth_Cons split: nat.splits)
  have out: "\<exists>(i, r) \<in> set buildings. \<exists>N n. far_neighbours i = Some N \<and> n \<in> set N \<and>
               (int (length buildings) \<le> n \<or> n < - int (length buildings))"
    by (simp add: buildings_def far_neighbours_def)
  have ins: "\<not> (\<exists>(i, r) \<in> set buildings. \<exists>N n. end_neighbours i = Some N \<and> n \<in> set N \<and>
               (int (length buildings) \<le> n \<or> n < - int (length buildings)))"
    "\<forall>(i, r) \<in> set buildings. \<forall>N n. end_neighbours i = Some N \<and> n \<in> set N \<longrightarrow>
       - int (length buildings) \<le> n \<and> n < int (length buildings)"
    by (auto simp: buildings_def end_neighbours_def split: if_splits)
  have d: "distinct (map fst buildings)" "''mesh'' \<noteq> ''area''" by (simp_all add: buildings_def)
  have k: "0 < length buildings" "end_neighbours (fst (buildings ! 0)) = Some [- 2, - 1]"
    "1 < length buildings" "end_neighbours (fst (buildings ! 1)) = Some [- 2]"
    by (simp_all add: buildings_def end_neighbours_def)
  have len: "length buildings = 2" by (simp add: buildings_def)
  from effective_mesh_index_error[OF nb(1) ar, of "''mesh''"] out
  have one: "returned (effective_mesh buildings ''mesh'' far_neighbours ''area'')
             = Inl IndexError" by simp
  from effective_mesh_index_error[OF nb(2) ar, of "''mesh''"] ins d k
  have two: "returned (effective_mesh buildings ''mesh'' end_neighbours ''area'') = Inr RetNone"
    and three: "snd (frame_after (effective_mesh buildings ''mesh'' end_neighbours ''area'') ! 0)
                  ''mesh''
                = Some (mesh_size 100 (map (\<lambda>n. if position 2 n = 0 then 100 else 4) [- 2, - 1]))"
    and four: "snd (frame_after (effective_mesh buildings ''mesh'' end_neighbours ''area'') ! 1)
                  ''mesh''
                = Some (mesh_size 4 (map (\<lambda>n. if position 2 n = 0 then 100 else 4) [- 2]))"
    by (simp_all add: len)
  from one two three four show ?thesis
    by (simp add: mesh_size_def position_def round_binary64_numeral)
qed

text \<open>
  C6 as stated fails: the neighbour \<open>- 1\<close> is no identifier of the two buildings, and
  \<^const>\<open>effective_mesh\<close> does not fail. \<^verbatim>\<open>iloc\<close> reads it as the last position, so the
  first building gets the mean of both areas.
\<close>

theorem effective_mesh_negative_neighbour_counterexample:
  "- 1 \<notin> fst ` set buildings \<and>
   returned (effective_mesh buildings ''mesh'' [0 \<mapsto> [- 1], 1 \<mapsto> []] ''area'') = Inr RetNone \<and>
   snd (frame_after (effective_mesh buildings ''mesh'' [0 \<mapsto> [- 1], 1 \<mapsto> []] ''area'') ! 0)
     ''mesh'' = Some (Num 52)"
  by (simp add: effective_mesh_def eval_defs py_add_def py_truediv_def round_binary64_numeral)

end
